theory Spec2Isabelle
  imports
    Complex_Main
    "HOL-Library.Multiset"
    "HOL-Library.Sublist"
    "HOL-Library.Char_ord"
    "HOL-Library.List_Lexorder"
    "HOL-Library.Product_Lexorder"
begin

section \<open>The user-activity log of task-flow: controller and schema\<close>

text \<open>
  The development embeds \<^verbatim>\<open>userLogController\<close> (\<^verbatim>\<open>createUserLog\<close>,
  \<^verbatim>\<open>getUserLogs\<close>, \<^verbatim>\<open>deleteUserLog\<close>, \<^verbatim>\<open>deleteMultipleLogs\<close>,
  \<^verbatim>\<open>getUserLogStats\<close>) and the \<^verbatim>\<open>UserLog\<close> schema. The handlers are
  asynchronous functions over a document store; here each is a function from the request
  and the state of the world to the JSON response and the new state. The world holds the
  two collections, the wall clock as the sequence of its successive readings, the
  generator of object ids, and the trace of the calls made to the store, in order.

  Conventions: a \<^verbatim>\<open>Date\<close> is its number of milliseconds since the epoch. An object
  id is its string of hexadecimal digits, and every value of the type \<open>oid\<close> stands for
  a well-formed id: what the driver does with a string that is no object id is outside
  the model. A field of the request that may be missing is an \<open>option\<close>, with \<open>None\<close>
  for \<^verbatim>\<open>undefined\<close>, and when present it is a string. A schema path whose default is
  \<^verbatim>\<open>null\<close> is an \<open>option\<close>, with \<open>None\<close> for \<^verbatim>\<open>null\<close>.
\<close>

subsection \<open>Documents\<close>

type_synonym oid = string
type_synonym date = int

text \<open>
  Modelled from the spec: the \<^verbatim>\<open>User\<close> model (\<^verbatim>\<open>../models/User\<close>) is not among
  the sources. The spec gives the directory's answer as \<open>{id, email, role} | absent\<close>;
  \<^verbatim>\<open>fullName\<close> is the other path that \<^verbatim>\<open>getUserLogs\<close> selects when it populates.
\<close>

record user =
  u_id :: oid
  fullName :: string
  email :: string
  u_role :: string

text \<open>
  \<^verbatim>\<open>UserLogSchema\<close>, with \<^verbatim>\<open>timestamps: true\<close>; \<open>log_id\<close> is the path
  \<^verbatim>\<open>_id\<close>. The type of \<open>userId\<close> is a parameter: an object id in the store, the
  populated user (or \<^verbatim>\<open>null\<close>) in the answer of \<^verbatim>\<open>getUserLogs\<close>.
\<close>

record 'u userlog =
  log_id :: oid
  userId :: 'u
  username :: string
  role :: string
  action :: string
  loginTime :: "date option"
  logoutTime :: "date option"
  ipAddress :: string
  tokenName :: string
  userAgent :: string
  sessionDuration :: "int option"
  createdAt :: date
  updatedAt :: date

text \<open>The object \<^verbatim>\<open>logData\<close> that \<^verbatim>\<open>createUserLog\<close> builds before the document exists.\<close>

record logData =
  ld_userId :: oid
  ld_username :: string
  ld_role :: string
  ld_action :: string
  ld_ipAddress :: string
  ld_tokenName :: string
  ld_userAgent :: string
  ld_loginTime :: "date option"
  ld_logoutTime :: "date option"
  ld_sessionDuration :: "int option"

subsection \<open>The world\<close>

datatype effect =
    E_User_findById oid
  | E_UserLog_findOne oid
  | E_UserLog_insert oid
  | E_UserLog_find
  | E_User_populate
  | E_UserLog_countDocuments
  | E_UserLog_findById oid
  | E_UserLog_findByIdAndDelete oid
  | E_UserLog_deleteMany
  | E_UserLog_aggregate

record world =
  users :: "user list"
  logs :: "oid userlog list"
  clock :: "nat \<Rightarrow> date"
  reads :: nat
  oids :: "nat \<Rightarrow> oid"
  next_oid :: nat
  trace :: "effect list"

text \<open>
  \<^verbatim>\<open>new Date()\<close> and \<^verbatim>\<open>Date.now()\<close> each read the clock once: the \<open>n\<close>-th reading
  of a run is \<open>clock st n\<close>, whatever it is (the wall clock may stand still or step back).
\<close>

definition new_Date :: "world \<Rightarrow> date \<times> world" where
  "new_Date st = (clock st (reads st), st\<lparr>reads := Suc (reads st)\<rparr>)"

definition Date_now :: "world \<Rightarrow> int \<times> world" where
  "Date_now st = (clock st (reads st), st\<lparr>reads := Suc (reads st)\<rparr>)"

definition log_effect :: "effect \<Rightarrow> world \<Rightarrow> world" where
  "log_effect e st = st\<lparr>trace := trace st @ [e]\<rparr>"

subsection \<open>Numbers\<close>

text \<open>
  A JavaScript number is an IEEE double. The numbers that the handlers compute with come
  from integers (a count, the integer written in a query parameter) by subtraction and
  multiplication, and their one quotient is rounded up at once by \<^verbatim>\<open>Math.ceil\<close>; so a
  number here is an integer that a double holds, an infinity or \<^verbatim>\<open>NaN\<close>. (The two
  zeros of the doubles are not told apart; JSON writes both as \<^verbatim>\<open>0\<close>, and a number that
  is not finite as \<^verbatim>\<open>null\<close>.)
\<close>

datatype jsnum = Fin int | PosInf | NegInf | NaN

text \<open>The number of binary digits of a positive integer.\<close>

function bits :: "int \<Rightarrow> nat" where
  "bits z = (if z \<le> 0 then 0 else Suc (bits (z div 2)))"
  by pat_completeness auto
termination
  by (relation "measure nat") auto

declare bits.simps [simp del]

text \<open>
  The integer nearest to \<open>a / b\<close>, for \<open>0 \<le> a\<close> and \<open>0 < b\<close>; of two that are equally
  near, the even one.
\<close>

definition nearest_even :: "int \<Rightarrow> int \<Rightarrow> int" where
  "nearest_even a b =
     (if b < 2 * (a mod b) \<or> (2 * (a mod b) = b \<and> odd (a div b)) then a div b + 1
      else a div b)"

text \<open>
  The double nearest to an integer: what the text of an integer becomes where the handler
  uses it as a number (\<^verbatim>\<open>page - 1\<close>, \<^verbatim>\<open>... * limit\<close>, \<^verbatim>\<open>total / limit\<close>) or reads it
  with \<^verbatim>\<open>parseInt\<close>, and what an integer result of an operation on doubles becomes. An
  integer below \<open>2^53\<close> in size is held as it is; a larger one keeps 53 binary digits,
  rounded to nearest with ties to even; from \<open>2^1024\<close> on the result is an infinity.
\<close>

definition to_Number :: "int \<Rightarrow> jsnum" where
  "to_Number z =
     (if \<bar>z\<bar> < 2 ^ 53 then Fin z
      else let u = 2 ^ (bits \<bar>z\<bar> - 53); v = nearest_even \<bar>z\<bar> u * u
           in if 2 ^ 1024 \<le> v then (if z < 0 then NegInf else PosInf) else Fin (sgn z * v))"

text \<open>The first \<open>k \<ge> s\<close> with \<open>P k\<close> among \<open>fuel\<close> candidates, and \<open>s + fuel\<close> if none has it.\<close>

primrec first_from :: "nat \<Rightarrow> (nat \<Rightarrow> bool) \<Rightarrow> nat \<Rightarrow> nat" where
  "first_from 0 P s = s"
| "first_from (Suc fuel) P s = (if P s then s else first_from fuel P (Suc s))"

text \<open>
  \<^verbatim>\<open>Math.ceil(a / b)\<close> and \<^verbatim>\<open>Math.floor(a / b)\<close> for integers \<open>0 \<le> a\<close> and \<open>0 < b\<close> that
  doubles hold: the quotient is first rounded to a double. A quotient of \<open>2^53\<close> or more
  becomes a multiple of a power of two, with 53 digits; a smaller one becomes a multiple
  of \<open>2^-s\<close>, with 53 digits or, for the smallest quotients, with \<open>s = 1074\<close>.
\<close>

definition quot_ceil :: "int \<Rightarrow> int \<Rightarrow> int" where
  "quot_ceil a b =
     (if 2 ^ 53 * b \<le> a then
        (let u = 2 ^ first_from 1024 (\<lambda>e. a < 2 ^ 53 * b * 2 ^ e) 0
         in nearest_even a (b * u) * u)
      else
        (let u = 2 ^ first_from 1074 (\<lambda>s. 2 ^ 52 * b \<le> a * 2 ^ s) 0
         in - ((- nearest_even (a * u) b) div u)))"

definition quot_floor :: "int \<Rightarrow> int \<Rightarrow> int" where
  "quot_floor a b =
     (if 2 ^ 53 * b \<le> a then
        (let u = 2 ^ first_from 1024 (\<lambda>e. a < 2 ^ 53 * b * 2 ^ e) 0
         in nearest_even a (b * u) * u)
      else
        (let u = 2 ^ first_from 1074 (\<lambda>s. 2 ^ 52 * b \<le> a * 2 ^ s) 0
         in nearest_even (a * u) b div u))"

text \<open>\<^verbatim>\<open>x - 1\<close>, \<^verbatim>\<open>x * y\<close> and \<^verbatim>\<open>Math.ceil(x / y)\<close> on numbers.\<close>

fun js_pred :: "jsnum \<Rightarrow> jsnum" where
  "js_pred (Fin a) = to_Number (a - 1)"
| "js_pred x = x"

fun js_times :: "jsnum \<Rightarrow> jsnum \<Rightarrow> jsnum" where
  "js_times NaN y = NaN"
| "js_times x NaN = NaN"
| "js_times (Fin a) (Fin b) = to_Number (a * b)"
| "js_times (Fin a) y = (if a = 0 then NaN else if (0 < a) = (y = PosInf) then PosInf else NegInf)"
| "js_times x (Fin b) = (if b = 0 then NaN else if (0 < b) = (x = PosInf) then PosInf else NegInf)"
| "js_times x y = (if x = y then PosInf else NegInf)"

fun Math_ceil_div :: "jsnum \<Rightarrow> jsnum \<Rightarrow> jsnum" where
  "Math_ceil_div NaN y = NaN"
| "Math_ceil_div x NaN = NaN"
| "Math_ceil_div (Fin a) (Fin b) =
     (if b = 0 then (if a = 0 then NaN else if 0 < a then PosInf else NegInf)
      else if (a < 0) = (b < 0) then Fin (quot_ceil \<bar>a\<bar> \<bar>b\<bar>)
      else Fin (- quot_floor \<bar>a\<bar> \<bar>b\<bar>))"
| "Math_ceil_div (Fin a) y = Fin 0"
| "Math_ceil_div x (Fin b) = (if (x = PosInf) = (0 \<le> b) then PosInf else NegInf)"
| "Math_ceil_div x y = NaN"

subsection \<open>Responses\<close>

datatype exn = ValidationError "string list" | CastError string | MongoServerError string

record pagination =
  currentPage :: jsnum
  totalPages :: jsnum
  totalItems :: int
  itemsPerPage :: jsnum

text \<open>
  The status and the JSON body of a response. A key that the handler does not send is
  \<open>None\<close>. \<open>error\<close> is the exception whose \<^verbatim>\<open>message\<close> the \<^verbatim>\<open>catch\<close> block sends.
\<close>

record 'a response =
  status :: nat
  success :: bool
  message :: "string option"
  error :: "exn option"
  data :: "'a option"
  pagination :: "pagination option"

definition fail_with :: "nat \<Rightarrow> string \<Rightarrow> 'a response" where
  "fail_with code msg =
     \<lparr>status = code, success = False, message = Some msg, error = None, data = None,
      pagination = None\<rparr>"

definition internal_error :: "exn \<Rightarrow> 'a response" where
  "internal_error e =
     \<lparr>status = 500, success = False, message = Some ''Internal server error'',
      error = Some e, data = None, pagination = None\<rparr>"

subsection \<open>JavaScript on request fields\<close>

text \<open>\<^verbatim>\<open>!v\<close> for a field that is a string or missing: the empty string is falsy too.\<close>

fun falsy :: "string option \<Rightarrow> bool" where
  "falsy None = True"
| "falsy (Some s) = (s = [])"

fun str :: "string option \<Rightarrow> string" where
  "str None = []"
| "str (Some s) = s"

text \<open>\<^verbatim>\<open>v || d\<close>.\<close>

definition or_else :: "string option \<Rightarrow> string \<Rightarrow> string" where
  "or_else v d = (if falsy v then d else str v)"

subsection \<open>Sorting as the store does\<close>

text \<open>
  The store compares values of different types by type first (null, then numbers, then
  strings, then object ids, then dates) and within a type by value; strings byte by
  byte. A key is the triple of the rank of the type, the number and the string.
\<close>

type_synonym bson_key = "nat \<times> int \<times> string"

definition k_null :: bson_key where "k_null = (0, 0, [])"
definition k_num :: "int \<Rightarrow> bson_key" where "k_num n = (1, n, [])"
definition k_str :: "string \<Rightarrow> bson_key" where "k_str s = (2, 0, s)"
definition k_oid :: "oid \<Rightarrow> bson_key" where "k_oid i = (3, 0, i)"
definition k_date :: "date \<Rightarrow> bson_key" where "k_date t = (4, t, [])"

definition field_key :: "string \<Rightarrow> oid userlog \<Rightarrow> bson_key" where
  "field_key f d =
     (if f = ''_id'' then k_oid (log_id d)
      else if f = ''userId'' then k_oid (userId d)
      else if f = ''username'' then k_str (username d)
      else if f = ''role'' then k_str (role d)
      else if f = ''action'' then k_str (action d)
      else if f = ''loginTime'' then (case loginTime d of None \<Rightarrow> k_null | Some t \<Rightarrow> k_date t)
      else if f = ''logoutTime'' then (case logoutTime d of None \<Rightarrow> k_null | Some t \<Rightarrow> k_date t)
      else if f = ''ipAddress'' then k_str (ipAddress d)
      else if f = ''tokenName'' then k_str (tokenName d)
      else if f = ''userAgent'' then k_str (userAgent d)
      else if f = ''sessionDuration'' then
        (case sessionDuration d of None \<Rightarrow> k_null | Some n \<Rightarrow> k_num n)
      else if f = ''createdAt'' then k_date (createdAt d)
      else if f = ''updatedAt'' then k_date (updatedAt d)
      else k_null)"

text \<open>\<^verbatim>\<open>.sort({f: dir})\<close>: ascending for \<open>1\<close>, descending for \<open>-1\<close>.\<close>

definition sort_docs :: "string \<Rightarrow> int \<Rightarrow> oid userlog list \<Rightarrow> oid userlog list" where
  "sort_docs f dir ds =
     (if dir = -1 then rev (sort_key (field_key f) ds) else sort_key (field_key f) ds)"

subsection \<open>The models' operations used by \<^verbatim>\<open>createUserLog\<close>\<close>

text \<open>
  Modelled from the spec: \<^verbatim>\<open>User.findById\<close>, the lookup \<open>findUserById(id)\<close> of the
  user directory, which answers the user or nothing.
\<close>

definition User_findById :: "oid \<Rightarrow> world \<Rightarrow> user option \<times> world" where
  "User_findById i st = (find (\<lambda>u. u_id u = i) (users st), log_effect (E_User_findById i) st)"

text \<open>
  \<^verbatim>\<open>UserLog.findOne({userId, action: 'login', loginTime: {$exists: true}}).sort({loginTime: -1})\<close>.
  Every document of the schema has the path \<^verbatim>\<open>loginTime\<close> (a date or the default
  \<^verbatim>\<open>null\<close>), so \<^verbatim>\<open>$exists\<close> holds of each; \<^verbatim>\<open>null\<close> sorts below every date.
\<close>

definition UserLog_findOne_login :: "oid \<Rightarrow> world \<Rightarrow> oid userlog option \<times> world" where
  "UserLog_findOne_login uid st =
     ((case sort_docs ''loginTime'' (-1)
              (filter (\<lambda>d. userId d = uid \<and> action d = ''login'') (logs st)) of
         [] \<Rightarrow> None
       | d # _ \<Rightarrow> Some d),
      log_effect (E_UserLog_findOne uid) st)"

text \<open>\<^verbatim>\<open>new UserLog(logData)\<close>: the document gets its \<^verbatim>\<open>_id\<close> from the generator.\<close>

definition new_UserLog :: "logData \<Rightarrow> world \<Rightarrow> (oid \<times> logData) \<times> world" where
  "new_UserLog ld st = ((oids st (next_oid st), ld), st\<lparr>next_oid := Suc (next_oid st)\<rparr>)"

text \<open>
  The validators of the schema, run by \<^verbatim>\<open>save\<close> before anything is written: the
  required strings must not be empty, \<^verbatim>\<open>role\<close> and \<^verbatim>\<open>action\<close> must be in their
  \<^verbatim>\<open>enum\<close>. The result lists the paths that fail. (\<^verbatim>\<open>userId\<close> is the \<^verbatim>\<open>_id\<close> of
  the user found, which is never missing.)
\<close>

definition role_enum :: "string list" where
  "role_enum = [''user'', ''admin'']"

definition action_enum :: "string list" where
  "action_enum = [''login'', ''logout'', ''register'', ''password_reset'']"

definition validate :: "logData \<Rightarrow> string list" where
  "validate ld =
     (if ld_username ld = [] then [''username''] else []) @
     (if ld_role ld \<in> set role_enum then [] else [''role'']) @
     (if ld_action ld \<in> set action_enum then [] else [''action'']) @
     (if ld_ipAddress ld = [] then [''ipAddress''] else [])"

text \<open>
  The document as stored: the paths of \<^verbatim>\<open>logData\<close>, \<^verbatim>\<open>null\<close> where it sets
  none, the \<^verbatim>\<open>_id\<close> and the two timestamps.
\<close>

definition document :: "oid \<Rightarrow> logData \<Rightarrow> date \<Rightarrow> oid userlog" where
  "document i ld t =
     \<lparr>log_id = i, userId = ld_userId ld, username = ld_username ld, role = ld_role ld,
      action = ld_action ld, loginTime = ld_loginTime ld, logoutTime = ld_logoutTime ld,
      ipAddress = ld_ipAddress ld, tokenName = ld_tokenName ld,
      userAgent = ld_userAgent ld, sessionDuration = ld_sessionDuration ld,
      createdAt = t, updatedAt = t\<rparr>"

text \<open>
  \<^verbatim>\<open>userLog.save()\<close>: a document that fails validation is rejected with a
  \<^verbatim>\<open>ValidationError\<close> and the store is not called; otherwise the timestamps are read
  from the clock and the document is inserted.
\<close>

definition UserLog_save :: "oid \<times> logData \<Rightarrow> world \<Rightarrow> (exn + oid userlog) \<times> world" where
  "UserLog_save doc st =
     (case doc of (i, ld) \<Rightarrow>
        (case validate ld of
           p # ps \<Rightarrow> (Inl (ValidationError (p # ps)), st)
         | [] \<Rightarrow>
             (case new_Date st of (t, st1) \<Rightarrow>
                (Inr (document i ld t),
                 log_effect (E_UserLog_insert i)
                   (st1\<lparr>logs := logs st1 @ [document i ld t]\<rparr>)))))"

subsection \<open>\<^verbatim>\<open>createUserLog\<close>\<close>

record create_req =
  b_userId :: "string option"
  b_action :: "string option"
  b_ipAddress :: "string option"
  b_tokenName :: "string option"
  b_userAgent :: "string option"
  h_userAgent :: "string option"

text \<open>
  Lines 36 to 50: the branch on \<^verbatim>\<open>action\<close> that sets the times. On \<^verbatim>\<open>logout\<close> the
  clock is read for \<^verbatim>\<open>logoutTime\<close>, the last login is looked up, and only when one
  with a \<^verbatim>\<open>loginTime\<close> is found the clock is read again, by \<^verbatim>\<open>Date.now()\<close>, for the
  duration.
\<close>

definition set_times :: "user \<Rightarrow> logData \<Rightarrow> world \<Rightarrow> logData \<times> world" where
  "set_times u ld st =
     (if ld_action ld = ''login'' then
        (case new_Date st of (t, st1) \<Rightarrow> (ld\<lparr>ld_loginTime := Some t\<rparr>, st1))
      else if ld_action ld = ''logout'' then
        (case new_Date st of (t, st1) \<Rightarrow>
           (case UserLog_findOne_login (u_id u) st1 of (lastLoginLog, st2) \<Rightarrow>
              (case lastLoginLog of
                 None \<Rightarrow> (ld\<lparr>ld_logoutTime := Some t\<rparr>, st2)
               | Some l \<Rightarrow>
                   (case loginTime l of
                      None \<Rightarrow> (ld\<lparr>ld_logoutTime := Some t\<rparr>, st2)
                    | Some lt \<Rightarrow>
                        (case Date_now st2 of (n, st3) \<Rightarrow>
                           (ld\<lparr>ld_logoutTime := Some t, ld_sessionDuration := Some (n - lt)\<rparr>,
                            st3))))))
      else (ld, st))"

text \<open>Lines 26 to 34: the snapshot of the user and the defaults.\<close>

definition logData_of :: "user \<Rightarrow> create_req \<Rightarrow> logData" where
  "logData_of u req =
     \<lparr>ld_userId = u_id u, ld_username = email u, ld_role = u_role u,
      ld_action = str (b_action req), ld_ipAddress = str (b_ipAddress req),
      ld_tokenName = or_else (b_tokenName req) ''N/A'',
      ld_userAgent =
        (if falsy (b_userAgent req) then or_else (h_userAgent req) ''Unknown''
         else str (b_userAgent req)),
      ld_loginTime = None, ld_logoutTime = None, ld_sessionDuration = None\<rparr>"

text \<open>
  Lines 52 to 68: the document is made and saved; an exception of \<^verbatim>\<open>save\<close> is caught
  and answered with status 500.
\<close>

definition save_and_respond :: "logData \<Rightarrow> world \<Rightarrow> oid userlog response \<times> world" where
  "save_and_respond ld st =
     (case new_UserLog ld st of (userLog, st1) \<Rightarrow>
        (case UserLog_save userLog st1 of
           (Inl x, st2) \<Rightarrow> (internal_error x, st2)
         | (Inr d, st2) \<Rightarrow>
             (\<lparr>status = 201, success = True,
               message = Some ''User log created successfully'',
               error = None, data = Some d, pagination = None\<rparr>, st2)))"

definition createUserLog :: "create_req \<Rightarrow> world \<Rightarrow> oid userlog response \<times> world" where
  "createUserLog req st =
     (if falsy (b_userId req) \<or> falsy (b_action req) \<or> falsy (b_ipAddress req) then
        (fail_with 400 ''Missing required fields: userId, action, ipAddress'', st)
      else
        (case User_findById (str (b_userId req)) st of
           (None, st1) \<Rightarrow> (fail_with 404 ''User not found'', st1)
         | (Some u, st1) \<Rightarrow>
             (case set_times u (logData_of u req) st1 of (logData, st2) \<Rightarrow>
                save_and_respond logData st2)))"

subsection \<open>\<^verbatim>\<open>getUserLogs\<close>\<close>

text \<open>
  Two primitives of the platform that the handler relies on and the sources do not
  hold are parameters: the store's operator \<^verbatim>\<open>{$regex: p, $options: 'i'}\<close>, which
  either rejects the pattern \<open>p\<close> or decides, for a string, whether the pattern matches
  somewhere in it, letter case ignored; and the date parser behind
  \<^verbatim>\<open>new Date(string)\<close>, which answers the instant or nothing (an invalid date).
\<close>

record env =
  regex_i :: "string \<Rightarrow> (string \<Rightarrow> bool) option"
  Date_parse :: "string \<Rightarrow> date option"

text \<open>
  The query string. \<open>page\<close> and \<open>limit\<close> are numeric parameters: each is given by
  the integer that its text writes, of any size.
\<close>

record logs_query =
  q_page :: "int option"
  q_limit :: "int option"
  q_role :: "string option"
  q_action :: "string option"
  q_search :: "string option"
  q_startDate :: "string option"
  q_endDate :: "string option"
  q_sortBy :: "string option"
  q_sortOrder :: "string option"

datatype jsdate = Date date | Invalid_Date

definition Date_of_string :: "env \<Rightarrow> string \<Rightarrow> jsdate" where
  "Date_of_string e s = (case Date_parse e s of None \<Rightarrow> Invalid_Date | Some t \<Rightarrow> Date t)"

text \<open>
  The object \<^verbatim>\<open>filter\<close>: a key that is not set is \<open>None\<close>. \<open>f_or\<close> is the pattern of
  the two \<^verbatim>\<open>$regex\<close> clauses of \<^verbatim>\<open>$or\<close>, on \<^verbatim>\<open>username\<close> and on \<^verbatim>\<open>ipAddress\<close>;
  \<open>f_createdAt\<close> holds \<^verbatim>\<open>$gte\<close> and \<^verbatim>\<open>$lte\<close>.
\<close>

record filter =
  f_role :: "string option"
  f_action :: "string option"
  f_or :: "string option"
  f_createdAt :: "(jsdate option \<times> jsdate option) option"

definition build_filter :: "env \<Rightarrow> logs_query \<Rightarrow> filter" where
  "build_filter e q =
     \<lparr>f_role = (if \<not> falsy (q_role q) \<and> str (q_role q) \<noteq> ''all'' then Some (str (q_role q))
                else None),
      f_action = (if \<not> falsy (q_action q) \<and> str (q_action q) \<noteq> ''all''
                  then Some (str (q_action q)) else None),
      f_or = (if \<not> falsy (q_search q) then Some (str (q_search q)) else None),
      f_createdAt =
        (if \<not> falsy (q_startDate q) \<or> \<not> falsy (q_endDate q) then
           Some (if \<not> falsy (q_startDate q)
                 then Some (Date_of_string e (str (q_startDate q))) else None,
                 if \<not> falsy (q_endDate q)
                 then Some (Date_of_string e (str (q_endDate q))) else None)
         else None)\<rparr>"

text \<open>
  What the filter means to the store. An invalid date cannot be cast to the type of
  \<^verbatim>\<open>createdAt\<close> and a pattern may be rejected: then the query throws. Otherwise a
  document matches when every clause that is set holds of it.
\<close>

definition clause_eq :: "string option \<Rightarrow> string \<Rightarrow> bool" where
  "clause_eq c v = (case c of None \<Rightarrow> True | Some x \<Rightarrow> v = x)"

definition clause_gte :: "jsdate option \<Rightarrow> date \<Rightarrow> bool" where
  "clause_gte c v = (case c of Some (Date t) \<Rightarrow> t \<le> v | _ \<Rightarrow> True)"

definition clause_lte :: "jsdate option \<Rightarrow> date \<Rightarrow> bool" where
  "clause_lte c v = (case c of Some (Date t) \<Rightarrow> v \<le> t | _ \<Rightarrow> True)"

definition bounds :: "filter \<Rightarrow> jsdate option \<times> jsdate option" where
  "bounds f = (case f_createdAt f of None \<Rightarrow> (None, None) | Some b \<Rightarrow> b)"

definition compile_filter :: "env \<Rightarrow> filter \<Rightarrow> exn + (oid userlog \<Rightarrow> bool)" where
  "compile_filter e f =
     (if fst (bounds f) = Some Invalid_Date \<or> snd (bounds f) = Some Invalid_Date then
        Inl (CastError ''createdAt'')
      else
        (case f_or f of
           None \<Rightarrow>
             Inr (\<lambda>d. clause_eq (f_role f) (role d) \<and> clause_eq (f_action f) (action d) \<and>
                       clause_gte (fst (bounds f)) (createdAt d) \<and>
                       clause_lte (snd (bounds f)) (createdAt d))
         | Some p \<Rightarrow>
             (case regex_i e p of
                None \<Rightarrow> Inl (MongoServerError ''$regex'')
              | Some m \<Rightarrow>
                  Inr (\<lambda>d. clause_eq (f_role f) (role d) \<and> clause_eq (f_action f) (action d) \<and>
                            (m (username d) \<or> m (ipAddress d)) \<and>
                            clause_gte (fst (bounds f)) (createdAt d) \<and>
                            clause_lte (snd (bounds f)) (createdAt d)))))"

text \<open>
  \<^verbatim>\<open>.skip(n)\<close> and \<^verbatim>\<open>.limit(n)\<close> as the store has them: a negative skip is an
  error, a limit of zero is no limit, a negative limit counts as its absolute value. The
  store reads a number that is not finite as the nearest bound of its 64-bit integers,
  which is beyond the length of any list, and \<^verbatim>\<open>NaN\<close> as zero.
\<close>

fun negative :: "jsnum \<Rightarrow> bool" where
  "negative (Fin z) = (z < 0)"
| "negative NegInf = True"
| "negative x = False"

fun skip_docs :: "jsnum \<Rightarrow> 'a list \<Rightarrow> 'a list" where
  "skip_docs (Fin z) ds = drop (nat z) ds"
| "skip_docs PosInf ds = []"
| "skip_docs x ds = ds"

fun limit_docs :: "jsnum \<Rightarrow> 'a list \<Rightarrow> 'a list" where
  "limit_docs (Fin z) ds = (if z = 0 then ds else take (nat \<bar>z\<bar>) ds)"
| "limit_docs x ds = ds"

definition UserLog_find ::
    "env \<Rightarrow> filter \<Rightarrow> string \<Rightarrow> int \<Rightarrow> jsnum \<Rightarrow> jsnum \<Rightarrow> world \<Rightarrow>
       (exn + oid userlog list) \<times> world" where
  "UserLog_find e f sortBy dir skip n st =
     (case compile_filter e f of
        Inl (CastError p) \<Rightarrow> (Inl (CastError p), st)
      | Inl x \<Rightarrow> (Inl x, log_effect E_UserLog_find st)
      | Inr P \<Rightarrow>
          (if negative skip then (Inl (MongoServerError ''skip''), log_effect E_UserLog_find st)
           else (Inr (limit_docs n (skip_docs skip (sort_docs sortBy dir (filter P (logs st))))),
                 log_effect E_UserLog_find st)))"

definition UserLog_countDocuments :: "env \<Rightarrow> filter \<Rightarrow> world \<Rightarrow> (exn + int) \<times> world" where
  "UserLog_countDocuments e f st =
     (case compile_filter e f of
        Inl (CastError p) \<Rightarrow> (Inl (CastError p), st)
      | Inl x \<Rightarrow> (Inl x, log_effect E_UserLog_countDocuments st)
      | Inr P \<Rightarrow> (Inr (int (length (filter P (logs st)))), log_effect E_UserLog_countDocuments st))"

text \<open>
  \<^verbatim>\<open>.populate('userId', 'fullName email')\<close>: the reference is replaced by the user it
  points to now, cut down to \<^verbatim>\<open>_id\<close>, \<^verbatim>\<open>fullName\<close> and \<^verbatim>\<open>email\<close>, or by
  \<^verbatim>\<open>null\<close> when there is no such user; the other paths are as stored.
\<close>

record populated_user =
  p_id :: oid
  p_fullName :: string
  p_email :: string

definition select_user :: "user \<Rightarrow> populated_user" where
  "select_user u = \<lparr>p_id = u_id u, p_fullName = fullName u, p_email = email u\<rparr>"

definition populate_userId :: "user list \<Rightarrow> oid userlog \<Rightarrow> populated_user option userlog" where
  "populate_userId us d =
     \<lparr>log_id = log_id d,
      userId = map_option select_user (find (\<lambda>u. u_id u = userId d) us),
      username = username d, role = role d, action = action d,
      loginTime = loginTime d, logoutTime = logoutTime d, ipAddress = ipAddress d,
      tokenName = tokenName d, userAgent = userAgent d,
      sessionDuration = sessionDuration d, createdAt = createdAt d,
      updatedAt = updatedAt d\<rparr>"

definition populate ::
    "oid userlog list \<Rightarrow> world \<Rightarrow> populated_user option userlog list \<times> world" where
  "populate ds st = (map (populate_userId (users st)) ds, log_effect E_User_populate st)"

text \<open>
  The destructuring of \<^verbatim>\<open>req.query\<close> with its defaults. Wherever the handler uses
  \<^verbatim>\<open>page\<close> or \<^verbatim>\<open>limit\<close> it makes a number of the text, by the coercion of
  \<^verbatim>\<open>page - 1\<close>, \<^verbatim>\<open>... * limit\<close> and \<^verbatim>\<open>total / limit\<close> or by \<^verbatim>\<open>parseInt\<close>, which
  agree on the text of an integer: \<open>page_of\<close> and \<open>limit_of\<close> are these numbers, and
  \<open>skip_of\<close> is \<^verbatim>\<open>(page - 1) * limit\<close>.
\<close>

definition page_of :: "logs_query \<Rightarrow> jsnum" where
  "page_of q = (case q_page q of None \<Rightarrow> Fin 1 | Some z \<Rightarrow> to_Number z)"

definition limit_of :: "logs_query \<Rightarrow> jsnum" where
  "limit_of q = (case q_limit q of None \<Rightarrow> Fin 50 | Some z \<Rightarrow> to_Number z)"

definition skip_of :: "logs_query \<Rightarrow> jsnum" where
  "skip_of q = js_times (js_pred (page_of q)) (limit_of q)"

definition sortBy_of :: "logs_query \<Rightarrow> string" where
  "sortBy_of q = (case q_sortBy q of None \<Rightarrow> ''createdAt'' | Some s \<Rightarrow> s)"

definition sortOrder_of :: "logs_query \<Rightarrow> string" where
  "sortOrder_of q = (case q_sortOrder q of None \<Rightarrow> ''desc'' | Some s \<Rightarrow> s)"

definition dir_of :: "logs_query \<Rightarrow> int" where
  "dir_of q = (if sortOrder_of q = ''desc'' then -1 else 1)"

definition getUserLogs ::
    "env \<Rightarrow> logs_query \<Rightarrow> world \<Rightarrow> populated_user option userlog list response \<times> world" where
  "getUserLogs e q st =
     (let flt = build_filter e q in
      (case UserLog_find e flt (sortBy_of q) (dir_of q) (skip_of q) (limit_of q) st of
         (Inl x, st1) \<Rightarrow> (internal_error x, st1)
       | (Inr found, st1) \<Rightarrow>
           (case populate found st1 of (docs, st2) \<Rightarrow>
              (case UserLog_countDocuments e flt st2 of
                 (Inl x, st3) \<Rightarrow> (internal_error x, st3)
               | (Inr tot, st3) \<Rightarrow>
                   (\<lparr>status = 200, success = True, message = None, error = None,
                     data = Some docs,
                     pagination =
                       Some \<lparr>currentPage = page_of q,
                             totalPages = Math_ceil_div (to_Number tot) (limit_of q),
                             totalItems = tot, itemsPerPage = limit_of q\<rparr>\<rparr>,
                    st3)))))"

subsection \<open>\<^verbatim>\<open>deleteUserLog\<close>\<close>

definition UserLog_findById :: "oid \<Rightarrow> world \<Rightarrow> oid userlog option \<times> world" where
  "UserLog_findById i st =
     (find (\<lambda>d. log_id d = i) (logs st), log_effect (E_UserLog_findById i) st)"

text \<open>\<^verbatim>\<open>findByIdAndDelete\<close> removes one document, the first with that \<^verbatim>\<open>_id\<close>, if any.\<close>

fun remove_first :: "('a \<Rightarrow> bool) \<Rightarrow> 'a list \<Rightarrow> 'a list" where
  "remove_first P [] = []"
| "remove_first P (x # xs) = (if P x then xs else x # remove_first P xs)"

definition UserLog_findByIdAndDelete :: "oid \<Rightarrow> world \<Rightarrow> world" where
  "UserLog_findByIdAndDelete i st =
     log_effect (E_UserLog_findByIdAndDelete i)
       (st\<lparr>logs := remove_first (\<lambda>d. log_id d = i) (logs st)\<rparr>)"

definition deleteUserLog :: "oid \<Rightarrow> world \<Rightarrow> unit response \<times> world" where
  "deleteUserLog logId st =
     (case UserLog_findById logId st of
        (None, st1) \<Rightarrow> (fail_with 404 ''Log entry not found'', st1)
      | (Some l, st1) \<Rightarrow>
          (\<lparr>status = 200, success = True,
            message = Some ''Log entry deleted successfully'',
            error = None, data = None, pagination = None\<rparr>,
           UserLog_findByIdAndDelete logId st1))"

subsection \<open>\<^verbatim>\<open>deleteMultipleLogs\<close>\<close>

text \<open>The value of \<^verbatim>\<open>req.body.logIds\<close> is whatever JSON the caller sent, or missing.\<close>

datatype jsval =
    JUndefined
  | JNull
  | JBool bool
  | JNum int
  | JStr string
  | JArr "jsval list"
  | JObj "(string \<times> jsval) list"

fun truthy :: "jsval \<Rightarrow> bool" where
  "truthy JUndefined = False"
| "truthy JNull = False"
| "truthy (JBool b) = b"
| "truthy (JNum n) = (n \<noteq> 0)"
| "truthy (JStr s) = (s \<noteq> [])"
| "truthy (JArr xs) = True"
| "truthy (JObj kvs) = True"

fun Array_isArray :: "jsval \<Rightarrow> bool" where
  "Array_isArray (JArr xs) = True"
| "Array_isArray v = False"

fun elements :: "jsval \<Rightarrow> jsval list" where
  "elements (JArr xs) = xs"
| "elements v = []"

text \<open>Casting a member of \<^verbatim>\<open>$in\<close> to the type of \<^verbatim>\<open>_id\<close>: only a string is an object id.\<close>

fun cast_oid :: "jsval \<Rightarrow> oid option" where
  "cast_oid (JStr s) = Some s"
| "cast_oid v = None"

fun cast_all :: "jsval list \<Rightarrow> oid list option" where
  "cast_all [] = Some []"
| "cast_all (v # vs) =
     (case cast_oid v of
        None \<Rightarrow> None
      | Some i \<Rightarrow> (case cast_all vs of None \<Rightarrow> None | Some is \<Rightarrow> Some (i # is)))"

text \<open>
  \<^verbatim>\<open>UserLog.deleteMany({_id: {$in: logIds}})\<close> answers \<^verbatim>\<open>deletedCount\<close>, the number
  of documents that it removed.
\<close>

definition UserLog_deleteMany_in :: "jsval list \<Rightarrow> world \<Rightarrow> (exn + nat) \<times> world" where
  "UserLog_deleteMany_in vs st =
     (case cast_all vs of
        None \<Rightarrow> (Inl (CastError ''_id''), st)
      | Some ids \<Rightarrow>
          (Inr (length (filter (\<lambda>d. log_id d \<in> set ids) (logs st))),
           log_effect E_UserLog_deleteMany
             (st\<lparr>logs := filter (\<lambda>d. log_id d \<notin> set ids) (logs st)\<rparr>)))"

text \<open>A number as a template literal writes it: in decimal.\<close>

definition digit :: "nat \<Rightarrow> char" where
  "digit k = char_of (of_char CHR ''0'' + k)"

fun decimal :: "nat \<Rightarrow> string" where
  "decimal n = (if 10 \<le> n then decimal (n div 10) @ [digit (n mod 10)] else [digit n])"

declare decimal.simps [simp del]

definition deleteMultipleLogs :: "jsval \<Rightarrow> world \<Rightarrow> unit response \<times> world" where
  "deleteMultipleLogs logIds st =
     (if \<not> truthy logIds \<or> \<not> Array_isArray logIds \<or> length (elements logIds) = 0 then
        (fail_with 400 ''Please provide an array of log IDs to delete'', st)
      else
        (case UserLog_deleteMany_in (elements logIds) st of
           (Inl x, st1) \<Rightarrow> (internal_error x, st1)
         | (Inr deletedCount, st1) \<Rightarrow>
             (\<lparr>status = 200, success = True,
               message = Some (decimal deletedCount @ '' log entries deleted successfully''),
               error = None, data = None, pagination = None\<rparr>,
              st1)))"

subsection \<open>\<^verbatim>\<open>getUserLogStats\<close>\<close>

record stats =
  totalLogs :: nat
  loginCount :: nat
  logoutCount :: nat
  uniqueUsers :: nat

text \<open>The accumulators of the \<^verbatim>\<open>$group\<close> stage; \<^verbatim>\<open>$addToSet\<close> keeps each value once.\<close>

record group_acc =
  g_totalLogs :: nat
  g_loginCount :: nat
  g_logoutCount :: nat
  g_uniqueUsers :: "oid list"

definition group_step :: "group_acc \<Rightarrow> oid userlog \<Rightarrow> group_acc" where
  "group_step a d =
     \<lparr>g_totalLogs = g_totalLogs a + 1,
      g_loginCount = g_loginCount a + (if action d = ''login'' then 1 else 0),
      g_logoutCount = g_logoutCount a + (if action d = ''logout'' then 1 else 0),
      g_uniqueUsers = List.insert (userId d) (g_uniqueUsers a)\<rparr>"

text \<open>
  \<^verbatim>\<open>$group\<close> with \<^verbatim>\<open>_id: null\<close> puts all documents in one group, and yields no
  group when there is no document; \<^verbatim>\<open>$project\<close> replaces the set by its \<^verbatim>\<open>$size\<close>.
\<close>

definition group_null :: "oid userlog list \<Rightarrow> group_acc list" where
  "group_null ds =
     (if ds = [] then []
      else [foldl group_step
              \<lparr>g_totalLogs = 0, g_loginCount = 0, g_logoutCount = 0, g_uniqueUsers = []\<rparr> ds])"

definition project :: "group_acc \<Rightarrow> stats" where
  "project a =
     \<lparr>totalLogs = g_totalLogs a, loginCount = g_loginCount a, logoutCount = g_logoutCount a,
      uniqueUsers = length (g_uniqueUsers a)\<rparr>"

definition UserLog_aggregate :: "date \<Rightarrow> world \<Rightarrow> stats list \<times> world" where
  "UserLog_aggregate bound st =
     (map project (group_null (filter (\<lambda>d. bound \<le> createdAt d) (logs st))),
      log_effect E_UserLog_aggregate st)"

text \<open>The \<^verbatim>\<open>switch\<close> on \<^verbatim>\<open>period\<close>: the length of the window in milliseconds.\<close>

definition period_ms :: "string \<Rightarrow> int" where
  "period_ms period =
     (if period = ''24h'' then 24 * 60 * 60 * 1000
      else if period = ''7d'' then 7 * 24 * 60 * 60 * 1000
      else if period = ''30d'' then 30 * 24 * 60 * 60 * 1000
      else 7 * 24 * 60 * 60 * 1000)"

definition getUserLogStats :: "string option \<Rightarrow> world \<Rightarrow> stats response \<times> world" where
  "getUserLogStats q_period st =
     (let period = (case q_period of None \<Rightarrow> ''7d'' | Some p \<Rightarrow> p) in
      (case new_Date st of (now, st1) \<Rightarrow>
         (case UserLog_aggregate (now - period_ms period) st1 of (stats, st2) \<Rightarrow>
            (\<lparr>status = 200, success = True, message = None, error = None,
              data = Some (case stats of
                             s # _ \<Rightarrow> s
                           | [] \<Rightarrow> \<lparr>totalLogs = 0, loginCount = 0, logoutCount = 0,
                                    uniqueUsers = 0\<rparr>),
              pagination = None\<rparr>,
             st2))))"

section \<open>The filter in words\<close>

text \<open>
  The clauses that a document must satisfy to be matched, read off the query. The clause
  on \<open>search\<close> is given twice: as the handler has it, with the store's operator on
  patterns, and as a search for a substring, letter case ignored.
\<close>

definition role_clause :: "logs_query \<Rightarrow> oid userlog \<Rightarrow> bool" where
  "role_clause q d = (falsy (q_role q) \<or> str (q_role q) = ''all'' \<or> role d = str (q_role q))"

definition action_clause :: "logs_query \<Rightarrow> oid userlog \<Rightarrow> bool" where
  "action_clause q d =
     (falsy (q_action q) \<or> str (q_action q) = ''all'' \<or> action d = str (q_action q))"

definition date_clause :: "env \<Rightarrow> logs_query \<Rightarrow> oid userlog \<Rightarrow> bool" where
  "date_clause e q d =
     ((falsy (q_startDate q) \<or>
         (case Date_parse e (str (q_startDate q)) of None \<Rightarrow> False | Some t \<Rightarrow> t \<le> createdAt d)) \<and>
      (falsy (q_endDate q) \<or>
         (case Date_parse e (str (q_endDate q)) of None \<Rightarrow> False | Some t \<Rightarrow> createdAt d \<le> t)))"

definition search_regex :: "env \<Rightarrow> logs_query \<Rightarrow> oid userlog \<Rightarrow> bool" where
  "search_regex e q d =
     (falsy (q_search q) \<or>
        (case regex_i e (str (q_search q)) of
           None \<Rightarrow> False
         | Some m \<Rightarrow> m (username d) \<or> m (ipAddress d)))"

definition lower :: "char \<Rightarrow> char" where
  "lower c = (if CHR ''A'' \<le> c \<and> c \<le> CHR ''Z'' then char_of (of_char c + (32 :: nat)) else c)"



definition satisfies :: "env \<Rightarrow> logs_query \<Rightarrow> oid userlog \<Rightarrow> bool" where
  "satisfies e q d =
     (role_clause q d \<and> action_clause q d \<and> search_regex e q d \<and> date_clause e q d)"


text \<open>The store accepts the query: the pattern, if any, and the dates, if any.\<close>

definition accepted :: "env \<Rightarrow> logs_query \<Rightarrow> bool" where
  "accepted e q =
     ((falsy (q_search q) \<or> regex_i e (str (q_search q)) \<noteq> None) \<and>
      (falsy (q_startDate q) \<or> Date_parse e (str (q_startDate q)) \<noteq> None) \<and>
      (falsy (q_endDate q) \<or> Date_parse e (str (q_endDate q)) \<noteq> None))"

section \<open>A concrete platform\<close>

text \<open>
  A regex operator for the patterns whose only metacharacter is the dot. As in the
  store, the dot stands for any character but the line feed and any other character for
  itself in either case, and the pattern may match anywhere in the string. A pattern with
  another metacharacter is outside this operator, which rejects it.
\<close>

definition other_meta :: string where
  "other_meta = CHR 0x5C # ''^$|?*+()[]{}''"

fun match_here :: "string \<Rightarrow> string \<Rightarrow> bool" where
  "match_here [] s = True"
| "match_here (p # ps) [] = False"
| "match_here (p # ps) (c # cs) =
     ((if p = CHR ''.'' then c \<noteq> CHR 0x0A else lower p = lower c) \<and> match_here ps cs)"

fun match_somewhere :: "string \<Rightarrow> string \<Rightarrow> bool" where
  "match_somewhere p [] = match_here p []"
| "match_somewhere p (c # cs) = (match_here p (c # cs) \<or> match_somewhere p cs)"

definition dot_regex :: "string \<Rightarrow> (string \<Rightarrow> bool) option" where
  "dot_regex p = (if set p \<inter> set other_meta = {} then Some (match_somewhere p) else None)"

text \<open>A date parser that knows two instants, written as ISO strings.\<close>

definition two_dates :: "string \<Rightarrow> date option" where
  "two_dates s =
     (if s = ''1970-01-01T00:00:02.000Z'' then Some 2000
      else if s = ''1970-01-01T00:00:04.000Z'' then Some 4000
      else None)"

definition platform :: env where
  "platform = \<lparr>regex_i = dot_regex, Date_parse = two_dates\<rparr>"

section \<open>Concrete worlds\<close>

text \<open>
  Object ids of the examples, 24 hexadecimal digits each: of the users Alice and Bob and of
  a user that the directory does not hold; of the records of the logs below and of
  two records that no log holds; and the first id that the generator hands out.
\<close>

abbreviation id_u1 :: oid where "id_u1 \<equiv> ''aaaaaaaaaaaaaaaaaaaa0001''"
abbreviation id_u2 :: oid where "id_u2 \<equiv> ''bbbbbbbbbbbbbbbbbbbb0002''"
abbreviation id_u9 :: oid where "id_u9 \<equiv> ''cccccccccccccccccccc0009''"
abbreviation id_a1 :: oid where "id_a1 \<equiv> ''1111111111111111111100a1''"
abbreviation id_a2 :: oid where "id_a2 \<equiv> ''1111111111111111111100a2''"
abbreviation id_a3 :: oid where "id_a3 \<equiv> ''1111111111111111111100a3''"
abbreviation id_zz :: oid where "id_zz \<equiv> ''9999999999999999999900f1''"
abbreviation id_qq :: oid where "id_qq \<equiv> ''9999999999999999999900f2''"
abbreviation id_c1 :: oid where "id_c1 \<equiv> ''2222222222222222222200c1''"
abbreviation id_c2 :: oid where "id_c2 \<equiv> ''2222222222222222222200c2''"
abbreviation id_c3 :: oid where "id_c3 \<equiv> ''2222222222222222222200c3''"
abbreviation id_c4 :: oid where "id_c4 \<equiv> ''2222222222222222222200c4''"
abbreviation id_f0 :: oid where "id_f0 \<equiv> ''fffffffffffffffffffffffe''"

text \<open>
  A directory with two users and a clock whose readings are 7 ms apart, starting at
  5000. \<open>world_a\<close> has an empty log; in \<open>world_b\<close> Alice has logged in twice and Bob
  once.
\<close>

definition alice :: user where
  "alice =
     \<lparr>u_id = id_u1, fullName = ''Alice A'', email = ''alice@example.com'',
      u_role = ''admin''\<rparr>"

definition bob :: user where
  "bob =
     \<lparr>u_id = id_u2, fullName = ''Bob B'', email = ''bob@example.com'', u_role = ''user''\<rparr>"

definition world_a :: world where
  "world_a =
     \<lparr>users = [alice, bob], logs = [], clock = (\<lambda>n. 5000 + 7 * int n), reads = 0,
      oids = (\<lambda>n. replicate (23 - n) CHR ''f'' @ replicate (Suc n) CHR ''e''),
      next_oid = 0, trace = []\<rparr>"

definition login_doc :: "oid \<Rightarrow> user \<Rightarrow> string \<Rightarrow> date \<Rightarrow> oid userlog" where
  "login_doc i u ip t =
     \<lparr>log_id = i, userId = u_id u, username = email u, role = u_role u, action = ''login'',
      loginTime = Some t, logoutTime = None, ipAddress = ip, tokenName = ''N/A'',
      userAgent = ''Unknown'', sessionDuration = None, createdAt = t + 1, updatedAt = t + 1\<rparr>"

definition world_b :: world where
  "world_b =
     world_a\<lparr>logs := [login_doc id_a1 alice ''10.0.0.7'' 1000,
                       login_doc id_a2 alice ''192.168.101.5'' 3000,
                       login_doc id_a3 bob ''10.0.0.8'' 4000]\<rparr>"

definition request :: "string \<Rightarrow> string \<Rightarrow> create_req" where
  "request uid act =
     \<lparr>b_userId = Some uid, b_action = Some act, b_ipAddress = Some ''10.0.0.7'',
      b_tokenName = None, b_userAgent = None, h_userAgent = None\<rparr>"

text \<open>
  \<open>world_c\<close> is \<open>world_a\<close> with a clock that is set back by four seconds after its
  second reading.
\<close>

definition world_c :: world where
  "world_c = world_a\<lparr>clock := (\<lambda>n. if n < 2 then 9000 + int n else 5000 + int n)\<rparr>"

text \<open>
  Queries: the empty one, and one in the shape of the spec's example, with a role, an
  action and a search string in capitals.
\<close>

definition no_query :: logs_query where
  "no_query =
     \<lparr>q_page = None, q_limit = None, q_role = None, q_action = None, q_search = None,
      q_startDate = None, q_endDate = None, q_sortBy = None, q_sortOrder = None\<rparr>"


text \<open>\<open>world_d\<close> holds 120 login records of Alice, created at 1, 2, ..., 120.\<close>

definition world_d :: world where
  "world_d =
     world_a\<lparr>logs :=
       map (\<lambda>k. login_doc (replicate (24 - length (decimal k)) CHR ''0'' @ decimal k) alice
                    ''10.0.0.7'' (int k))
         [0..<120]\<rparr>"


definition page3_query :: logs_query where
  "page3_query = no_query\<lparr>q_page := Some 3\<rparr>"

text \<open>Queries with a page beyond \<open>2^53\<close>, with the limit 0 and with the page 0.\<close>

definition huge_page_query :: logs_query where
  "huge_page_query = no_query\<lparr>q_page := Some 9007199254740993, q_limit := Some 1\<rparr>"

definition zero_limit_query :: logs_query where
  "zero_limit_query = no_query\<lparr>q_limit := Some 0\<rparr>"

definition zero_page_query :: logs_query where
  "zero_page_query = no_query\<lparr>q_page := Some 0\<rparr>"

definition world_e :: world where
  "world_e = world_b\<lparr>users := [alice\<lparr>email := ''alice@new.example''\<rparr>]\<rparr>"

text \<open>
  \<open>world_f\<close>: it is day 10; the log holds records made on day 2, twice on day 5, and
  on day 9 less than a day ago.
\<close>

definition day :: int where "day = 24 * 60 * 60 * 1000"

definition world_f :: world where
  "world_f =
     world_a\<lparr>clock := (\<lambda>n. 10 * day + int n),
             logs := [login_doc id_c1 alice ''10.0.0.7'' (2 * day),
                      login_doc id_c2 bob ''10.0.0.8'' (5 * day),
                      (login_doc id_c3 bob ''10.0.0.8'' (5 * day + 60000))
                        \<lparr>action := ''logout'', loginTime := None,
                          logoutTime := Some (5 * day + 60000),
                          sessionDuration := Some 60000\<rparr>,
                      login_doc id_c4 alice ''10.0.0.7'' (9 * day + 50000)]\<rparr>"

section \<open>Facts about the operations\<close>

lemma to_Number_safe: "\<bar>z\<bar> < 2 ^ 53 \<Longrightarrow> to_Number z = Fin z"
  by (simp add: to_Number_def)

lemma first_from_holds:
  "\<exists>k. s \<le> k \<and> k < s + fuel \<and> P k \<Longrightarrow> P (first_from fuel P s)"
proof (induction fuel arbitrary: s)
  case 0
  then show ?case by auto
next
  case (Suc fuel)
  show ?case
  proof (cases "P s")
    case True
    then show ?thesis by simp
  next
    case False
    from Suc.prems obtain k where k: "s \<le> k" "k < s + Suc fuel" "P k" by blast
    with False have "s \<noteq> k" by auto
    with k have "\<exists>k. Suc s \<le> k \<and> k < Suc s + fuel \<and> P k" by (intro exI[of _ k]) simp
    from Suc.IH[OF this] False show ?thesis by simp
  qed
qed

lemma nearest_even_exact: "0 < b \<Longrightarrow> nearest_even (k * b) b = k"
  by (simp add: nearest_even_def)

lemma div_between:
  fixes x u q :: int
  assumes "0 < u" "q * u \<le> x" "x < (q + 1) * u"
  shows "x div u = q"
proof -
  define t where "t = x - q * u"
  have t: "0 \<le> t" "t < u" using assms by (simp_all add: t_def algebra_simps)
  have "x = t + u * q" by (simp add: t_def)
  then have "x div u = (t + u * q) div u" by simp
  also have "\<dots> = q + t div u" using assms(1) by simp
  also have "t div u = 0" using t by simp
  finally show ?thesis by simp
qed

lemma div_less_scale:
  fixes r u b :: int
  assumes "0 < b" "r * u < u * b"
  shows "(r * u) div b < u"
proof (rule ccontr)
  assume "\<not> (r * u) div b < u"
  then have "u \<le> (r * u) div b" by simp
  then have "b * u \<le> b * ((r * u) div b)" using assms(1) by (simp add: mult_left_mono)
  also have "\<dots> \<le> r * u"
    using assms(1) pos_mod_sign[of b "r * u"] mult_div_mod_eq[of b "r * u"] by linarith
  finally show False using assms(2) by (simp add: mult.commute)
qed

lemma neg_mult_div:
  fixes k u :: int
  assumes "0 < u"
  shows "(- (k * u)) div u = - k"
proof -
  have "(- (k * u)) div u = ((- k) * u) div u" by simp
  also have "\<dots> = - k" by (rule nonzero_mult_div_cancel_right) (use assms in simp)
  finally show ?thesis .
qed

lemma ceil_scaled:
  fixes a b u :: int
  assumes a: "0 \<le> a" "a < 2 ^ 53" and b: "0 < b" and u: "0 < u" and n: "2 ^ 52 * b \<le> a * u"
  shows "- ((- nearest_even (a * u) b) div u) = - ((- a) div b)"
proof (cases "a mod b = 0")
  case True
  then obtain k where k: "a = k * b" by (metis dvd_def mod_0_imp_dvd mult.commute)
  have "nearest_even (a * u) b = nearest_even ((k * u) * b) b" by (simp add: k ac_simps)
  also have "\<dots> = k * u" by (rule nearest_even_exact[OF b])
  finally have "nearest_even (a * u) b = k * u" .
  moreover have "- ((- a) div b) = k" unfolding k by (simp add: neg_mult_div[OF b])
  ultimately show ?thesis by (simp add: neg_mult_div[OF u])
next
  case False
  define k where "k = a div b"
  define r where "r = a mod b"
  have "0 \<le> a mod b" "a mod b < b" using b by simp_all
  with False have r: "0 < r" "r < b" unfolding r_def by linarith+
  have ab: "a = k * b + r" by (simp add: k_def r_def)
  have ceil: "- ((- a) div b) = k + 1"
    using False b by (simp add: k_def zdiv_zminus1_eq_if)
  have ub: "b < 2 * u"
  proof -
    have "2 ^ 52 * b \<le> a * u" by (rule n)
    also have "a * u < 2 ^ 53 * u" using a u by simp
    finally show ?thesis by simp
  qed
  define d' where "d' = (r * u) div b"
  define r' where "r' = (r * u) mod b"
  have au: "a * u = r * u + b * (k * u)" by (simp add: ab algebra_simps)
  have dv: "(a * u) div b = k * u + d'" "(a * u) mod b = r'"
    unfolding au d'_def r'_def using b by simp_all
  have ru: "0 \<le> r * u" using r u by simp
  have d'0: "0 \<le> d'" using ru b by (simp add: d'_def pos_imp_zdiv_nonneg_iff)
  have d'u: "d' < u"
  proof -
    have "r * u < u * b" using r u by (simp add: mult.commute)
    then show ?thesis unfolding d'_def using b by (intro div_less_scale)
  qed
  let ?m = "nearest_even (a * u) b"
  have m: "?m = k * u + d' \<or> ?m = k * u + d' + 1"
    by (simp add: nearest_even_def dv)
  have lo: "k * u < ?m"
  proof (cases "d' = 0")
    case True
    then have "r' = r * u" unfolding r'_def d'_def
      using b ru mod_eq_self_iff_div_eq_0 by blast
    moreover have "u \<le> r * u" using r u by simp
    ultimately have "b < 2 * r'" using ub by simp
    then have "?m = k * u + d' + 1" by (simp add: nearest_even_def dv)
    with True show ?thesis by simp
  next
    case False
    with d'0 m show ?thesis by auto
  qed
  have hi: "?m \<le> (k + 1) * u" using m d'u by (auto simp: algebra_simps)
  have "(- ?m) div u = - (k + 1)"
    using lo hi u by (intro div_between) (simp_all add: algebra_simps)
  with ceil show ?thesis by simp
qed

lemma quot_ceil_safe:
  assumes "0 \<le> a" "a < 2 ^ 53" "0 < b" "b < 2 ^ 53"
  shows "quot_ceil a b = - ((- a) div b)"
proof (cases "a = 0")
  case True
  then show ?thesis using assms by (simp add: quot_ceil_def nearest_even_def)
next
  case False
  with assms have a1: "1 \<le> a" by simp
  let ?P = "\<lambda>s. 2 ^ 52 * b \<le> a * 2 ^ s"
  have "?P 105"
  proof -
    have "2 ^ 52 * b \<le> 2 ^ 52 * (2 ^ 53 :: int)" using assms(4) by simp
    also have "\<dots> = 1 * 2 ^ 105" by simp
    also have "\<dots> \<le> a * 2 ^ 105" using a1 by (intro mult_right_mono) simp_all
    finally show ?thesis .
  qed
  then have "\<exists>k. 0 \<le> k \<and> k < 0 + 1074 \<and> ?P k" by (intro exI[of _ 105]) simp
  then have P: "?P (first_from 1074 ?P 0)" by (rule first_from_holds)
  have big: "\<not> 2 ^ 53 * b \<le> a"
  proof -
    have "a < 2 ^ 53 * 1" using assms(2) by simp
    also have "\<dots> \<le> 2 ^ 53 * b" using assms(3) by (intro mult_left_mono) simp_all
    finally show ?thesis by simp
  qed
  show ?thesis
    using ceil_scaled[OF assms(1,2,3) _ P] big by (simp add: quot_ceil_def Let_def)
qed

lemma Math_ceil_div_safe:
  assumes "0 \<le> a" "a < 2 ^ 53" "0 < b" "b < 2 ^ 53"
  shows "Math_ceil_div (to_Number a) (to_Number b) = Fin \<lceil>real_of_int a / real_of_int b\<rceil>"
  using assms by (simp add: to_Number_safe quot_ceil_safe ceiling_divide_eq_div)

lemma js_offset_safe:
  assumes "1 \<le> p" "p < 2 ^ 53" "0 \<le> l" "l < 2 ^ 53" "(p - 1) * l < 2 ^ 53"
  shows "js_times (js_pred (to_Number p)) (to_Number l) = Fin ((p - 1) * l)"
proof -
  have "0 \<le> (p - 1) * l" using assms by simp
  then show ?thesis using assms by (simp add: to_Number_safe)
qed

lemma key_null_le_date: "k_null \<le> k_date t" "\<not> k_date t \<le> k_null"
  by (simp_all add: k_null_def k_date_def)

lemma key_date_le: "k_date s \<le> k_date t \<longleftrightarrow> s \<le> t"
  by (auto simp: k_date_def)

lemma loginTime_key:
  "field_key ''loginTime'' d = (case loginTime d of None \<Rightarrow> k_null | Some t \<Rightarrow> k_date t)"
  by (simp add: field_key_def)

lemma sorted_last_max:
  "sorted (map k xs) \<Longrightarrow> x \<in> set xs \<Longrightarrow> k x \<le> k (last xs)"
proof (induction xs)
  case Nil
  then show ?case by simp
next
  case (Cons a xs)
  then show ?case by (cases "xs = []") auto
qed

lemma hd_sort_desc:
  assumes "x \<in> set ds"
  shows "sort_docs f (-1) ds \<noteq> [] \<and> hd (sort_docs f (-1) ds) \<in> set ds \<and>
         field_key f x \<le> field_key f (hd (sort_docs f (-1) ds))"
proof -
  let ?s = "sort_key (field_key f) ds"
  from assms have ne: "?s \<noteq> []" by (metis empty_iff set_empty set_sort)
  have hd: "hd (sort_docs f (-1) ds) = last ?s"
    using ne by (simp add: sort_docs_def hd_rev)
  have "last ?s \<in> set ?s" using ne by (rule last_in_set)
  then have "last ?s \<in> set ds" by simp
  moreover have "field_key f x \<le> field_key f (last ?s)"
    using assms by (intro sorted_last_max) simp_all
  ultimately show ?thesis using ne hd by (simp add: sort_docs_def)
qed


lemma sort_docs_Nil_iff: "sort_docs f dir ds = [] \<longleftrightarrow> ds = []"
proof -
  have "length (sort_docs f dir ds) = length ds" by (simp add: sort_docs_def)
  then show ?thesis by (metis length_0_conv)
qed

lemma findOne_login_None:
  "fst (UserLog_findOne_login uid st) = None \<longleftrightarrow>
   filter (\<lambda>d. userId d = uid \<and> action d = ''login'') (logs st) = []"
proof -
  let ?c = "filter (\<lambda>d. userId d = uid \<and> action d = ''login'') (logs st)"
  let ?s = "sort_docs ''loginTime'' (-1) ?c"
  have iff: "?s = [] \<longleftrightarrow> ?c = []"
    by (rule sort_docs_Nil_iff)
  show ?thesis
  proof (cases ?s)
    case Nil
    then have "?c = []" unfolding sort_docs_Nil_iff .
    with Nil show ?thesis by (simp add: UserLog_findOne_login_def)
  next
    case (Cons a as)
    then have "?s \<noteq> []" by simp
    then have "?c \<noteq> []" unfolding sort_docs_Nil_iff .
    with Cons show ?thesis by (simp add: UserLog_findOne_login_def)
  qed
qed

lemma findOne_login_Some:
  assumes "fst (UserLog_findOne_login uid st) = Some l"
  shows "l \<in> set (logs st) \<and> userId l = uid \<and> action l = ''login'' \<and>
         (\<forall>d \<in> set (logs st). userId d = uid \<and> action d = ''login'' \<longrightarrow>
            field_key ''loginTime'' d \<le> field_key ''loginTime'' l)"
proof -
  let ?c = "filter (\<lambda>d. userId d = uid \<and> action d = ''login'') (logs st)"
  let ?s = "sort_docs ''loginTime'' (-1) ?c"
  from assms have ne: "?s \<noteq> []" and l: "l = hd ?s"
    by (auto simp: UserLog_findOne_login_def split: list.splits)
  then have "?c \<noteq> []" unfolding sort_docs_Nil_iff by simp
  then obtain x where x: "x \<in> set ?c" by (meson last_in_set)
  from hd_sort_desc[OF x, of "''loginTime''"] l have "l \<in> set ?c" by simp
  moreover have "field_key ''loginTime'' d \<le> field_key ''loginTime'' l" if "d \<in> set ?c" for d
    using hd_sort_desc[OF that, of "''loginTime''"] l by simp
  ultimately show ?thesis by auto
qed

lemma snd_findOne_login: "snd (UserLog_findOne_login uid st) = log_effect (E_UserLog_findOne uid) st"
  by (simp add: UserLog_findOne_login_def)

lemma validate_Nil_iff:
  "validate ld = [] \<longleftrightarrow>
     ld_username ld \<noteq> [] \<and> ld_role ld \<in> set role_enum \<and>
     ld_action ld \<in> set action_enum \<and> ld_ipAddress ld \<noteq> []"
  by (simp add: validate_def)

lemma save_and_respond_valid:
  assumes "validate ld = []"
  shows "save_and_respond ld st =
           (\<lparr>status = 201, success = True, message = Some ''User log created successfully'',
             error = None,
             data = Some (document (oids st (next_oid st)) ld (clock st (reads st))),
             pagination = None\<rparr>,
            st\<lparr>next_oid := Suc (next_oid st), reads := Suc (reads st),
               logs := logs st @ [document (oids st (next_oid st)) ld (clock st (reads st))],
               trace := trace st @ [E_UserLog_insert (oids st (next_oid st))]\<rparr>)"
  using assms
  by (simp add: save_and_respond_def new_UserLog_def UserLog_save_def new_Date_def
      log_effect_def)

lemma save_and_respond_invalid:
  assumes "validate ld \<noteq> []"
  shows "save_and_respond ld st =
           (internal_error (ValidationError (validate ld)), st\<lparr>next_oid := Suc (next_oid st)\<rparr>)"
  using assms
  by (cases "validate ld")
     (simp_all add: save_and_respond_def new_UserLog_def UserLog_save_def)

lemma createUserLog_missing:
  assumes "falsy (b_userId req) \<or> falsy (b_action req) \<or> falsy (b_ipAddress req)"
  shows "createUserLog req st =
           (fail_with 400 ''Missing required fields: userId, action, ipAddress'', st)"
  using assms by (simp add: createUserLog_def)

lemma createUserLog_no_user:
  assumes "\<not> falsy (b_userId req)" "\<not> falsy (b_action req)" "\<not> falsy (b_ipAddress req)"
    and "find (\<lambda>u. u_id u = str (b_userId req)) (users st) = None"
  shows "createUserLog req st =
           (fail_with 404 ''User not found'',
            log_effect (E_User_findById (str (b_userId req))) st)"
  using assms by (simp add: createUserLog_def User_findById_def)

lemma createUserLog_user:
  assumes "\<not> falsy (b_userId req)" "\<not> falsy (b_action req)" "\<not> falsy (b_ipAddress req)"
    and "find (\<lambda>u. u_id u = str (b_userId req)) (users st) = Some u"
  shows "createUserLog req st =
           save_and_respond
             (fst (set_times u (logData_of u req)
                     (log_effect (E_User_findById (str (b_userId req))) st)))
             (snd (set_times u (logData_of u req)
                     (log_effect (E_User_findById (str (b_userId req))) st)))"
  using assms by (simp add: createUserLog_def User_findById_def split: prod.splits)

lemma set_times_login:
  assumes "ld_action ld = ''login''"
  shows "set_times u ld st =
           (ld\<lparr>ld_loginTime := Some (clock st (reads st))\<rparr>, st\<lparr>reads := Suc (reads st)\<rparr>)"
  using assms by (simp add: set_times_def new_Date_def)

lemma set_times_other:
  assumes "ld_action ld \<noteq> ''login''" "ld_action ld \<noteq> ''logout''"
  shows "set_times u ld st = (ld, st)"
  using assms by (simp add: set_times_def)

lemma set_times_logout_unlinked:
  assumes "ld_action ld = ''logout''"
    and "\<forall>l. fst (UserLog_findOne_login (u_id u) (st\<lparr>reads := Suc (reads st)\<rparr>)) = Some l
             \<longrightarrow> loginTime l = None"
  shows "set_times u ld st =
           (ld\<lparr>ld_logoutTime := Some (clock st (reads st))\<rparr>,
            log_effect (E_UserLog_findOne (u_id u)) (st\<lparr>reads := Suc (reads st)\<rparr>))"
  using assms
  by (auto simp add: set_times_def new_Date_def snd_findOne_login case_prod_unfold
      split: option.splits)

lemma set_times_logout_linked:
  assumes "ld_action ld = ''logout''"
    and "fst (UserLog_findOne_login (u_id u) (st\<lparr>reads := Suc (reads st)\<rparr>)) = Some l"
    and "loginTime l = Some lt"
  shows "set_times u ld st =
           (ld\<lparr>ld_logoutTime := Some (clock st (reads st)),
               ld_sessionDuration := Some (clock st (Suc (reads st)) - lt)\<rparr>,
            (log_effect (E_UserLog_findOne (u_id u)) st)\<lparr>reads := Suc (Suc (reads st))\<rparr>)"
  using assms
  by (simp add: set_times_def new_Date_def Date_now_def snd_findOne_login log_effect_def
      case_prod_unfold)

lemma find_Some_id: "find (\<lambda>u. u_id u = i) us = Some u \<Longrightarrow> u_id u = i"
  by (auto simp: find_Some_iff)

lemma validate_set_times: "validate (fst (set_times u ld st)) = validate ld"
  by (simp add: set_times_def validate_def new_Date_def Date_now_def case_prod_unfold
      split: option.splits)

lemma validate_logData_of:
  "validate (logData_of u req) = [] \<longleftrightarrow>
     email u \<noteq> [] \<and> u_role u \<in> set role_enum \<and> str (b_action req) \<in> set action_enum \<and>
     \<not> falsy (b_ipAddress req)"
  by (cases "b_ipAddress req") (simp_all add: validate_Nil_iff logData_of_def)

lemma logs_set_times: "logs (snd (set_times u ld st)) = logs st"
  by (simp add: set_times_def new_Date_def Date_now_def case_prod_unfold snd_findOne_login
      log_effect_def split: option.splits)

lemma trace_set_times_other:
  "ld_action ld \<noteq> ''login'' \<Longrightarrow> ld_action ld \<noteq> ''logout'' \<Longrightarrow> snd (set_times u ld st) = st"
  by (simp add: set_times_other)

lemma findOne_login_latest:
  assumes "r0 \<in> set (logs st)" "userId r0 = uid" "action r0 = ''login''" "loginTime r0 = Some t0"
  shows "\<exists>l tl. fst (UserLog_findOne_login uid st) = Some l \<and> l \<in> set (logs st) \<and>
           userId l = uid \<and> action l = ''login'' \<and> loginTime l = Some tl \<and>
           (\<forall>x \<in> set (logs st). userId x = uid \<and> action x = ''login'' \<longrightarrow>
              (\<forall>t. loginTime x = Some t \<longrightarrow> t \<le> tl))"
proof -
  have "filter (\<lambda>d. userId d = uid \<and> action d = ''login'') (logs st) \<noteq> []"
    using assms(1-3) by (auto simp: filter_empty_conv)
  then obtain l where l: "fst (UserLog_findOne_login uid st) = Some l"
    using findOne_login_None[of uid st] by (cases "fst (UserLog_findOne_login uid st)") auto
  note L = findOne_login_Some[OF l]
  from L assms have "k_date t0 \<le> field_key ''loginTime'' l"
    by (auto simp: loginTime_key dest!: bspec[where x = r0])
  then obtain tl where tl: "loginTime l = Some tl"
    by (cases "loginTime l") (auto simp: loginTime_key key_null_le_date)
  have "t \<le> tl" if "x \<in> set (logs st)" "userId x = uid" "action x = ''login''"
    "loginTime x = Some t" for x t
  proof -
    from L that have "field_key ''loginTime'' x \<le> field_key ''loginTime'' l" by blast
    with that(4) tl show ?thesis by (simp add: loginTime_key key_date_le)
  qed
  with l L tl show ?thesis by blast
qed

lemma set_times_fields:
  assumes "ld_loginTime ld = None" "ld_logoutTime ld = None" "ld_sessionDuration ld = None"
  shows "(ld_loginTime (fst (set_times u ld st)) \<noteq> None \<longleftrightarrow> ld_action ld = ''login'') \<and>
         (ld_logoutTime (fst (set_times u ld st)) \<noteq> None \<longleftrightarrow> ld_action ld = ''logout'') \<and>
         (ld_sessionDuration (fst (set_times u ld st)) \<noteq> None \<longrightarrow> ld_action ld = ''logout'') \<and>
         ld_action (fst (set_times u ld st)) = ld_action ld \<and>
         ld_userId (fst (set_times u ld st)) = ld_userId ld"
  using assms
  by (simp add: set_times_def new_Date_def Date_now_def case_prod_unfold split: option.splits)

lemma set_times_duration:
  assumes "ld_sessionDuration (fst (set_times u ld st)) = Some n" "ld_sessionDuration ld = None"
  shows "\<exists>l lt. l \<in> set (logs st) \<and> userId l = u_id u \<and> action l = ''login'' \<and>
           loginTime l = Some lt \<and> n = clock st (Suc (reads st)) - lt"
proof -
  let ?f = "fst (UserLog_findOne_login (u_id u) (st\<lparr>reads := Suc (reads st)\<rparr>))"
  from assms have act: "ld_action ld = ''logout''"
    by (auto simp add: set_times_def new_Date_def split: if_splits)
  from assms act obtain l lt where l: "?f = Some l" "loginTime l = Some lt"
    by (auto simp add: set_times_def new_Date_def case_prod_unfold split: option.splits)
  from findOne_login_Some[OF l(1)] have "l \<in> set (logs st)" "userId l = u_id u"
    "action l = ''login''" by simp_all
  moreover from assms(1) have "n = clock st (Suc (reads st)) - lt"
    unfolding set_times_logout_linked[OF act l] by simp
  ultimately show ?thesis using l(2) by blast
qed

lemma createUserLog_data:
  assumes "data (fst (createUserLog req st)) = Some d"
  shows "\<exists>u. \<not> falsy (b_userId req) \<and> \<not> falsy (b_action req) \<and> \<not> falsy (b_ipAddress req) \<and>
           find (\<lambda>u. u_id u = str (b_userId req)) (users st) = Some u \<and>
           validate (logData_of u req) = [] \<and>
           (\<exists>i t. d = document i
               (fst (set_times u (logData_of u req)
                       (log_effect (E_User_findById (str (b_userId req))) st))) t)"
proof -
  have nf: "\<not> falsy (b_userId req)" "\<not> falsy (b_action req)" "\<not> falsy (b_ipAddress req)"
    using assms by (auto simp: createUserLog_missing fail_with_def)
  then obtain u where u: "find (\<lambda>u. u_id u = str (b_userId req)) (users st) = Some u"
    using assms
    by (cases "find (\<lambda>u. u_id u = str (b_userId req)) (users st)")
       (auto simp: createUserLog_no_user fail_with_def)
  let ?p = "set_times u (logData_of u req) (log_effect (E_User_findById (str (b_userId req))) st)"
  have val: "validate (fst ?p) = []"
  proof (rule ccontr)
    assume "validate (fst ?p) \<noteq> []"
    from save_and_respond_invalid[OF this] assms show False
      unfolding createUserLog_user[OF nf u] by (simp add: internal_error_def)
  qed
  from assms have "\<exists>i t. d = document i (fst ?p) t"
    unfolding createUserLog_user[OF nf u] save_and_respond_valid[OF val] by auto
  with nf u val show ?thesis by (auto simp: validate_set_times)
qed

lemma bounds_build_filter:
  "bounds (build_filter e q) =
     (if falsy (q_startDate q) then None else Some (Date_of_string e (str (q_startDate q))),
      if falsy (q_endDate q) then None else Some (Date_of_string e (str (q_endDate q))))"
  by (simp add: bounds_def build_filter_def)

lemma Date_of_string_Invalid: "Date_of_string e s = Invalid_Date \<longleftrightarrow> Date_parse e s = None"
  by (simp add: Date_of_string_def split: option.splits)

lemma clause_gte_build:
  "clause_gte (if falsy v then None else Some (Date_of_string e (str v))) c \<longleftrightarrow>
     (falsy v \<or> (case Date_parse e (str v) of None \<Rightarrow> True | Some t \<Rightarrow> t \<le> c))"
  by (simp add: clause_gte_def Date_of_string_def split: option.splits)

lemma clause_lte_build:
  "clause_lte (if falsy v then None else Some (Date_of_string e (str v))) c \<longleftrightarrow>
     (falsy v \<or> (case Date_parse e (str v) of None \<Rightarrow> True | Some t \<Rightarrow> c \<le> t))"
  by (simp add: clause_lte_def Date_of_string_def split: option.splits)

lemma clause_role_build: "clause_eq (f_role (build_filter e q)) (role d) \<longleftrightarrow> role_clause q d"
  by (auto simp add: clause_eq_def build_filter_def role_clause_def)

lemma clause_action_build:
  "clause_eq (f_action (build_filter e q)) (action d) \<longleftrightarrow> action_clause q d"
  by (auto simp add: clause_eq_def build_filter_def action_clause_def)

lemma date_clause_build:
  assumes "accepted e q"
  shows "clause_gte (fst (bounds (build_filter e q))) (createdAt d) \<and>
         clause_lte (snd (bounds (build_filter e q))) (createdAt d) \<longleftrightarrow> date_clause e q d"
  using assms
  by (auto simp add: bounds_build_filter clause_gte_build clause_lte_build date_clause_def
      accepted_def split: option.splits)

lemma compile_filter_accepted:
  assumes "accepted e q"
  shows "compile_filter e (build_filter e q) = Inr (satisfies e q)"
proof -
  have nb: "\<not> (fst (bounds (build_filter e q)) = Some Invalid_Date \<or>
                snd (bounds (build_filter e q)) = Some Invalid_Date)"
    using assms by (auto simp: bounds_build_filter Date_of_string_Invalid accepted_def)
  show ?thesis
  proof (cases "falsy (q_search q)")
    case True
    then have f: "f_or (build_filter e q) = None" by (simp add: build_filter_def)
    have "(\<lambda>d. clause_eq (f_role (build_filter e q)) (role d) \<and>
               clause_eq (f_action (build_filter e q)) (action d) \<and>
               clause_gte (fst (bounds (build_filter e q))) (createdAt d) \<and>
               clause_lte (snd (bounds (build_filter e q))) (createdAt d)) = satisfies e q"
      using True date_clause_build[OF assms]
      by (auto simp add: fun_eq_iff clause_role_build clause_action_build satisfies_def
          search_regex_def)
    with nb f show ?thesis by (simp add: compile_filter_def)
  next
    case False
    then have f: "f_or (build_filter e q) = Some (str (q_search q))"
      by (simp add: build_filter_def)
    from False assms obtain m where m: "regex_i e (str (q_search q)) = Some m"
      by (auto simp: accepted_def)
    have "(\<lambda>d. clause_eq (f_role (build_filter e q)) (role d) \<and>
               clause_eq (f_action (build_filter e q)) (action d) \<and>
               (m (username d) \<or> m (ipAddress d)) \<and>
               clause_gte (fst (bounds (build_filter e q))) (createdAt d) \<and>
               clause_lte (snd (bounds (build_filter e q))) (createdAt d)) = satisfies e q"
      using False m date_clause_build[OF assms]
      by (auto simp add: fun_eq_iff clause_role_build clause_action_build satisfies_def
          search_regex_def)
    with nb f m show ?thesis by (simp add: compile_filter_def)
  qed
qed

lemma compile_filter_rejected:
  assumes "\<not> accepted e q"
  shows "\<exists>x. compile_filter e (build_filter e q) = Inl x"
proof (cases "fst (bounds (build_filter e q)) = Some Invalid_Date \<or>
                snd (bounds (build_filter e q)) = Some Invalid_Date")
  case True
  then show ?thesis by (simp add: compile_filter_def)
next
  case False
  then have "(falsy (q_startDate q) \<or> Date_parse e (str (q_startDate q)) \<noteq> None) \<and>
      (falsy (q_endDate q) \<or> Date_parse e (str (q_endDate q)) \<noteq> None)"
    by (auto simp: bounds_build_filter Date_of_string_Invalid split: if_splits)
  with assms have "\<not> falsy (q_search q)" "regex_i e (str (q_search q)) = None"
    by (auto simp: accepted_def)
  with False show ?thesis by (simp add: compile_filter_def build_filter_def)
qed

lemma getUserLogs_accepted:
  assumes "accepted e q" "\<not> negative (skip_of q)"
  shows "getUserLogs e q st =
           (\<lparr>status = 200, success = True, message = None, error = None,
             data = Some (map (populate_userId (users st))
                      (limit_docs (limit_of q) (skip_docs (skip_of q)
                         (sort_docs (sortBy_of q) (dir_of q)
                            (filter (satisfies e q) (logs st)))))),
             pagination =
               Some \<lparr>currentPage = page_of q,
                     totalPages =
                       Math_ceil_div (to_Number (int (length (filter (satisfies e q) (logs st)))))
                         (limit_of q),
                     totalItems = int (length (filter (satisfies e q) (logs st))),
                     itemsPerPage = limit_of q\<rparr>\<rparr>,
            st\<lparr>trace := trace st @ [E_UserLog_find, E_User_populate, E_UserLog_countDocuments]\<rparr>)"
  using assms
  by (simp add: getUserLogs_def UserLog_find_def UserLog_countDocuments_def populate_def
      compile_filter_accepted log_effect_def Let_def)

lemma getUserLogs_failed:
  assumes "\<not> accepted e q \<or> negative (skip_of q)"
  shows "status (fst (getUserLogs e q st)) = 500 \<and> data (fst (getUserLogs e q st)) = None \<and>
         logs (snd (getUserLogs e q st)) = logs st"
proof (cases "accepted e q")
  case True
  with assms show ?thesis
    by (simp add: getUserLogs_def UserLog_find_def compile_filter_accepted log_effect_def
        internal_error_def Let_def)
next
  case False
  from compile_filter_rejected[OF this] obtain x where
    "compile_filter e (build_filter e q) = Inl x" by blast
  then show ?thesis
    by (cases x)
       (simp_all add: getUserLogs_def UserLog_find_def log_effect_def internal_error_def
          Let_def)
qed

lemma set_sort_docs: "set (sort_docs f dir ds) = set ds"
  by (simp add: sort_docs_def)

lemma length_sort_docs: "length (sort_docs f dir ds) = length ds"
  by (simp add: sort_docs_def)

lemma mset_sort_docs: "mset (sort_docs f dir ds) = mset ds"
  by (simp add: sort_docs_def)

lemma sorted_sort_docs:
  "(if dir = -1 then sorted (rev (map (field_key f) (sort_docs f dir ds)))
    else sorted (map (field_key f) (sort_docs f dir ds)))"
  by (simp add: sort_docs_def rev_map)

lemma set_limit_docs: "set (limit_docs n ds) \<subseteq> set ds"
  by (cases n) (auto dest: in_set_takeD)

lemma set_skip_docs: "set (skip_docs n ds) \<subseteq> set ds"
  by (cases n) (auto dest: in_set_dropD)

lemma limit_docs_all: "int (length ds) \<le> z \<Longrightarrow> limit_docs (Fin z) ds = ds"
  by simp

lemma limit_docs_take: "1 \<le> z \<Longrightarrow> limit_docs (Fin z) ds = take (nat z) ds"
  by simp

lemma find_Some_holds: "find P xs = Some l \<Longrightarrow> P l"
  by (auto simp: find_Some_iff)

lemma remove_first_remove1: "find P xs = Some l \<Longrightarrow> remove_first P xs = remove1 l xs"
proof (induction xs)
  case Nil
  then show ?case by simp
next
  case (Cons x xs)
  show ?case
  proof (cases "P x")
    case True
    with Cons.prems show ?thesis by simp
  next
    case False
    with Cons.prems have f: "find P xs = Some l" by simp
    from find_Some_holds[OF f] False have "x \<noteq> l" by auto
    with False Cons.IH[OF f] show ?thesis by simp
  qed
qed

lemma find_log_id:
  "i \<notin> log_id ` set ds \<Longrightarrow> find (\<lambda>d. log_id d = i) ds = None"
  "i \<in> log_id ` set ds \<Longrightarrow> \<exists>l. find (\<lambda>d. log_id d = i) ds = Some l \<and> l \<in> set ds \<and> log_id l = i"
proof -
  show "i \<notin> log_id ` set ds \<Longrightarrow> find (\<lambda>d. log_id d = i) ds = None"
    by (auto simp: find_None_iff)
  assume "i \<in> log_id ` set ds"
  then have "find (\<lambda>d. log_id d = i) ds \<noteq> None" by (auto simp: find_None_iff)
  then obtain l where l: "find (\<lambda>d. log_id d = i) ds = Some l" by auto
  then have "l \<in> set ds \<and> log_id l = i" by (auto simp: find_Some_iff)
  with l show "\<exists>l. find (\<lambda>d. log_id d = i) ds = Some l \<and> l \<in> set ds \<and> log_id l = i" by blast
qed

lemma deleteUserLog_absent:
  assumes "find (\<lambda>d. log_id d = i) (logs st) = None"
  shows "deleteUserLog i st =
           (fail_with 404 ''Log entry not found'', log_effect (E_UserLog_findById i) st)"
  using assms by (simp add: deleteUserLog_def UserLog_findById_def)

lemma deleteUserLog_present:
  assumes "find (\<lambda>d. log_id d = i) (logs st) = Some l"
  shows "deleteUserLog i st =
           (\<lparr>status = 200, success = True, message = Some ''Log entry deleted successfully'',
             error = None, data = None, pagination = None\<rparr>,
            st\<lparr>logs := remove1 l (logs st),
               trace := trace st @ [E_UserLog_findById i, E_UserLog_findByIdAndDelete i]\<rparr>)"
  using assms
  by (simp add: deleteUserLog_def UserLog_findById_def UserLog_findByIdAndDelete_def
      log_effect_def remove_first_remove1)

lemma cast_all_strings: "cast_all (map JStr ids) = Some ids"
  by (induction ids) simp_all

lemma not_array_cases:
  "(\<not> truthy v \<or> \<not> Array_isArray v \<or> length (elements v) = 0) \<longleftrightarrow>
   \<not> (\<exists>xs. xs \<noteq> [] \<and> v = JArr xs)"
  by (cases v) auto

lemma deleteMultipleLogs_invalid:
  assumes "\<not> (\<exists>xs. xs \<noteq> [] \<and> v = JArr xs)"
  shows "deleteMultipleLogs v st =
           (fail_with 400 ''Please provide an array of log IDs to delete'', st)"
  using assms unfolding not_array_cases[symmetric] by (simp add: deleteMultipleLogs_def)

lemma deleteMultipleLogs_array:
  assumes "xs \<noteq> []"
  shows "deleteMultipleLogs (JArr xs) st =
           (case UserLog_deleteMany_in xs st of
              (Inl x, st1) \<Rightarrow> (internal_error x, st1)
            | (Inr deletedCount, st1) \<Rightarrow>
                (\<lparr>status = 200, success = True,
                  message = Some (decimal deletedCount @ '' log entries deleted successfully''),
                  error = None, data = None, pagination = None\<rparr>, st1))"
  using assms by (simp add: deleteMultipleLogs_def)

lemma deleteMultipleLogs_status:
  "status (fst (deleteMultipleLogs v st)) = 400 \<longleftrightarrow> \<not> (\<exists>xs. xs \<noteq> [] \<and> v = JArr xs)"
proof (cases "\<exists>xs. xs \<noteq> [] \<and> v = JArr xs")
  case True
  then obtain xs where xs: "xs \<noteq> []" "v = JArr xs" by blast
  have "status (fst (deleteMultipleLogs (JArr xs) st)) \<noteq> 400"
    unfolding deleteMultipleLogs_array[OF xs(1)]
    by (simp add: UserLog_deleteMany_in_def internal_error_def split: option.splits)
  with True xs show ?thesis by simp
next
  case False
  from deleteMultipleLogs_invalid[OF this] False show ?thesis by (simp add: fail_with_def)
qed

lemma group_step_counts:
  "g_totalLogs (foldl group_step a ds) = g_totalLogs a + length ds"
  "g_loginCount (foldl group_step a ds) =
     g_loginCount a + length (filter (\<lambda>d. action d = ''login'') ds)"
  "g_logoutCount (foldl group_step a ds) =
     g_logoutCount a + length (filter (\<lambda>d. action d = ''logout'') ds)"
  by (induction ds arbitrary: a) (simp_all add: group_step_def)

lemma group_step_set:
  "set (g_uniqueUsers (foldl group_step a ds)) = set (g_uniqueUsers a) \<union> userId ` set ds"
  by (induction ds arbitrary: a) (auto simp add: group_step_def)

lemma group_step_distinct:
  "distinct (g_uniqueUsers a) \<Longrightarrow> distinct (g_uniqueUsers (foldl group_step a ds))"
  by (induction ds arbitrary: a) (simp_all add: group_step_def)

lemma project_group:
  assumes "ds \<noteq> []"
  shows "map project (group_null ds) =
           [\<lparr>totalLogs = length ds,
             loginCount = length (filter (\<lambda>d. action d = ''login'') ds),
             logoutCount = length (filter (\<lambda>d. action d = ''logout'') ds),
             uniqueUsers = card (userId ` set ds)\<rparr>]"
proof -
  let ?a = "\<lparr>g_totalLogs = 0, g_loginCount = 0, g_logoutCount = 0, g_uniqueUsers = []\<rparr>"
  have "distinct (g_uniqueUsers (foldl group_step ?a ds))"
    by (rule group_step_distinct) simp
  then have "length (g_uniqueUsers (foldl group_step ?a ds)) =
               card (set (g_uniqueUsers (foldl group_step ?a ds)))"
    by (simp add: distinct_card)
  also have "\<dots> = card (userId ` set ds)" by (simp add: group_step_set)
  finally show ?thesis
    using assms by (simp add: group_null_def project_def group_step_counts)
qed

lemma getUserLogStats_eq:
  "getUserLogStats per st =
     (\<lparr>status = 200, success = True, message = None, error = None,
       data = Some
         \<lparr>totalLogs = length (filter (\<lambda>d. clock st (reads st) -
                            period_ms (case per of None \<Rightarrow> ''7d'' | Some p \<Rightarrow> p) \<le> createdAt d)
                            (logs st)),
          loginCount = length (filter (\<lambda>d. action d = ''login'')
                         (filter (\<lambda>d. clock st (reads st) -
                            period_ms (case per of None \<Rightarrow> ''7d'' | Some p \<Rightarrow> p) \<le> createdAt d)
                            (logs st))),
          logoutCount = length (filter (\<lambda>d. action d = ''logout'')
                         (filter (\<lambda>d. clock st (reads st) -
                            period_ms (case per of None \<Rightarrow> ''7d'' | Some p \<Rightarrow> p) \<le> createdAt d)
                            (logs st))),
          uniqueUsers = card (userId ` set
                         (filter (\<lambda>d. clock st (reads st) -
                            period_ms (case per of None \<Rightarrow> ''7d'' | Some p \<Rightarrow> p) \<le> createdAt d)
                            (logs st)))\<rparr>,
       pagination = None\<rparr>,
      st\<lparr>reads := Suc (reads st), trace := trace st @ [E_UserLog_aggregate]\<rparr>)"
proof -
  let ?M = "filter (\<lambda>d. clock st (reads st) -
               period_ms (case per of None \<Rightarrow> ''7d'' | Some p \<Rightarrow> p) \<le> createdAt d) (logs st)"
  show ?thesis
  proof (cases "?M = []")
    case True
    then show ?thesis
      by (simp add: getUserLogStats_def new_Date_def UserLog_aggregate_def log_effect_def
          group_null_def del: filter_empty_conv filter.simps)
  next
    case False
    from project_group[OF this] show ?thesis
      by (simp add: getUserLogStats_def new_Date_def UserLog_aggregate_def log_effect_def
          del: filter_empty_conv)
  qed
qed

section \<open>Claims on \<^verbatim>\<open>createUserLog\<close>\<close>

text \<open>
  C9. A logout for a user who has no login record with a login time (in particular no
  login record at all) succeeds with status 201, and the record stored for it has no
  session duration.
\<close>

theorem createUserLog_logout_without_login:
  assumes req: "\<not> falsy (b_userId req)" "b_action req = Some ''logout''"
      "\<not> falsy (b_ipAddress req)"
    and user: "find (\<lambda>u. u_id u = str (b_userId req)) (users st) = Some u"
      "email u \<noteq> []" "u_role u \<in> set role_enum"
    and none: "\<forall>d \<in> set (logs st). userId d = u_id u \<and> action d = ''login'' \<longrightarrow> loginTime d = None"
  shows "\<exists>d. fst (createUserLog req st) =
               \<lparr>status = 201, success = True, message = Some ''User log created successfully'',
                error = None, data = Some d, pagination = None\<rparr> \<and>
             logs (snd (createUserLog req st)) = logs st @ [d] \<and>
             userId d = u_id u \<and> action d = ''logout'' \<and>
             logoutTime d = Some (clock st (reads st)) \<and> sessionDuration d = None"
proof -
  let ?st1 = "log_effect (E_User_findById (str (b_userId req))) st"
  let ?ld = "logData_of u req"
  have act: "ld_action ?ld = ''logout''" using req(2) by (simp add: logData_of_def)
  have nf: "\<not> falsy (b_action req)" using req(2) by simp
  have unl: "\<forall>l. fst (UserLog_findOne_login (u_id u) (?st1\<lparr>reads := Suc (reads ?st1)\<rparr>)) = Some l
                 \<longrightarrow> loginTime l = None"
  proof (intro allI impI)
    fix l assume "fst (UserLog_findOne_login (u_id u) (?st1\<lparr>reads := Suc (reads ?st1)\<rparr>)) = Some l"
    from findOne_login_Some[OF this] none show "loginTime l = None"
      by (simp add: log_effect_def)
  qed
  have st: "set_times u ?ld ?st1 =
              (?ld\<lparr>ld_logoutTime := Some (clock st (reads st))\<rparr>,
               log_effect (E_UserLog_findOne (u_id u)) (?st1\<lparr>reads := Suc (reads ?st1)\<rparr>))"
    using set_times_logout_unlinked[OF act unl] by (simp add: log_effect_def)
  have val: "validate (?ld\<lparr>ld_logoutTime := Some (clock st (reads st))\<rparr>) = []"
    using validate_logData_of[of u req] req user by (simp add: validate_def action_enum_def)
  show ?thesis
    unfolding createUserLog_user[OF req(1) nf req(3) user(1)] st fst_conv snd_conv
      save_and_respond_valid[OF val]
    using req(2) by (simp add: document_def logData_of_def log_effect_def)
qed

theorem createUserLog_logout_without_login_witness:
  "status (fst (createUserLog (request id_u1 ''logout'') world_a)) = 201 \<and>
   map_option sessionDuration (data (fst (createUserLog (request id_u1 ''logout'') world_a)))
     = Some None"
proof -
  have h: "\<not> falsy (b_userId (request id_u1 ''logout''))"
    "b_action (request id_u1 ''logout'') = Some ''logout''"
    "\<not> falsy (b_ipAddress (request id_u1 ''logout''))"
    "find (\<lambda>u. u_id u = str (b_userId (request id_u1 ''logout''))) (users world_a) = Some alice"
    "email alice \<noteq> []" "u_role alice \<in> set role_enum"
    "\<forall>d \<in> set (logs world_a). userId d = u_id alice \<and> action d = ''login'' \<longrightarrow> loginTime d = None"
    by (simp_all add: request_def world_a_def alice_def bob_def role_enum_def)
  from createUserLog_logout_without_login[OF h] show ?thesis by auto
qed

text \<open>
  C1, as amended. A logout for a user who has a login record with a login time is linked
  to a login record of that user whose login time is the latest of all; the session
  duration stored is the clock as \<^verbatim>\<open>Date.now()\<close> reads it after the lookup, minus that
  login time. \<^verbatim>\<open>logoutTime\<close> is the earlier reading of the clock, taken before the
  lookup, so the duration is the time from the login to \<^verbatim>\<open>logoutTime\<close> plus the time
  between the two readings.
\<close>

theorem createUserLog_logout_session:
  assumes req: "\<not> falsy (b_userId req)" "b_action req = Some ''logout''"
      "\<not> falsy (b_ipAddress req)"
    and user: "find (\<lambda>u. u_id u = str (b_userId req)) (users st) = Some u"
      "email u \<noteq> []" "u_role u \<in> set role_enum"
    and prior: "r0 \<in> set (logs st)" "userId r0 = u_id u" "action r0 = ''login''"
      "loginTime r0 = Some t0"
  shows "\<exists>d l tl.
           fst (createUserLog req st) =
             \<lparr>status = 201, success = True, message = Some ''User log created successfully'',
              error = None, data = Some d, pagination = None\<rparr> \<and>
           logs (snd (createUserLog req st)) = logs st @ [d] \<and>
           userId d = u_id u \<and> action d = ''logout'' \<and>
           l \<in> set (logs st) \<and> userId l = u_id u \<and> action l = ''login'' \<and>
           loginTime l = Some tl \<and>
           (\<forall>x \<in> set (logs st). userId x = u_id u \<and> action x = ''login'' \<longrightarrow>
              (\<forall>t. loginTime x = Some t \<longrightarrow> t \<le> tl)) \<and>
           logoutTime d = Some (clock st (reads st)) \<and>
           sessionDuration d = Some (clock st (Suc (reads st)) - tl)"
proof -
  let ?st1 = "log_effect (E_User_findById (str (b_userId req))) st"
  let ?st1' = "?st1\<lparr>reads := Suc (reads ?st1)\<rparr>"
  let ?ld = "logData_of u req"
  have act: "ld_action ?ld = ''logout''" using req(2) by (simp add: logData_of_def)
  have nf: "\<not> falsy (b_action req)" using req(2) by simp
  have lg: "logs ?st1' = logs st" by (simp add: log_effect_def)
  from prior have "r0 \<in> set (logs ?st1')" by (simp add: lg)
  from findOne_login_latest[OF this prior(2-4)] obtain l tl where
    l: "fst (UserLog_findOne_login (u_id u) ?st1') = Some l" "l \<in> set (logs st)"
      "userId l = u_id u" "action l = ''login''" "loginTime l = Some tl"
      "\<forall>x \<in> set (logs st). userId x = u_id u \<and> action x = ''login'' \<longrightarrow>
              (\<forall>t. loginTime x = Some t \<longrightarrow> t \<le> tl)"
    unfolding lg by blast
  let ?ld' = "?ld\<lparr>ld_logoutTime := Some (clock st (reads st)),
               ld_sessionDuration := Some (clock st (Suc (reads st)) - tl)\<rparr>"
  have st: "set_times u ?ld ?st1 =
              (?ld', (log_effect (E_UserLog_findOne (u_id u)) ?st1)\<lparr>reads := Suc (Suc (reads st))\<rparr>)"
    using set_times_logout_linked[OF act l(1) l(5)] by (simp add: log_effect_def)
  have val: "validate ?ld' = []"
    using validate_logData_of[of u req] req user by (simp add: validate_def action_enum_def)
  have "fst (createUserLog req st) =
          \<lparr>status = 201, success = True, message = Some ''User log created successfully'',
           error = None,
           data = Some (document (oids st (next_oid st)) ?ld' (clock st (Suc (Suc (reads st))))),
           pagination = None\<rparr> \<and>
        logs (snd (createUserLog req st)) =
          logs st @ [document (oids st (next_oid st)) ?ld' (clock st (Suc (Suc (reads st))))]"
    unfolding createUserLog_user[OF req(1) nf req(3) user(1)] st fst_conv snd_conv
      save_and_respond_valid[OF val]
    by (simp add: log_effect_def)
  moreover have "userId (document i ?ld' t) = u_id u \<and> action (document i ?ld' t) = ''logout'' \<and>
    logoutTime (document i ?ld' t) = Some (clock st (reads st)) \<and>
    sessionDuration (document i ?ld' t) = Some (clock st (Suc (reads st)) - tl)" for i t
    using req(2) by (simp add: document_def logData_of_def)
  ultimately show ?thesis using l(2-6) by blast
qed

theorem createUserLog_logout_session_witness:
  "map_option sessionDuration (data (fst (createUserLog (request id_u1 ''logout'') world_b)))
     = Some (Some (5007 - 3000)) \<and>
   map_option logoutTime (data (fst (createUserLog (request id_u1 ''logout'') world_b)))
     = Some (Some 5000)"
proof -
  have h: "\<not> falsy (b_userId (request id_u1 ''logout''))"
    "b_action (request id_u1 ''logout'') = Some ''logout''"
    "\<not> falsy (b_ipAddress (request id_u1 ''logout''))"
    "find (\<lambda>u. u_id u = str (b_userId (request id_u1 ''logout''))) (users world_b) = Some alice"
    "email alice \<noteq> []" "u_role alice \<in> set role_enum"
    "login_doc id_a1 alice ''10.0.0.7'' 1000 \<in> set (logs world_b)"
    "userId (login_doc id_a1 alice ''10.0.0.7'' 1000) = u_id alice"
    "action (login_doc id_a1 alice ''10.0.0.7'' 1000) = ''login''"
    "loginTime (login_doc id_a1 alice ''10.0.0.7'' 1000) = Some 1000"
    by (simp_all add: request_def world_a_def world_b_def alice_def bob_def role_enum_def
        login_doc_def)
  from createUserLog_logout_session[OF h] obtain d l tl where
    d: "data (fst (createUserLog (request id_u1 ''logout'') world_b)) = Some d"
      "logoutTime d = Some (clock world_b (reads world_b))"
      "sessionDuration d = Some (clock world_b (Suc (reads world_b)) - tl)"
    and l: "l \<in> set (logs world_b)" "userId l = u_id alice" "loginTime l = Some tl"
    and m: "\<forall>x \<in> set (logs world_b). userId x = u_id alice \<and> action x = ''login'' \<longrightarrow>
              (\<forall>t. loginTime x = Some t \<longrightarrow> t \<le> tl)"
    by auto
  from l have "tl \<le> 3000"
    by (auto simp: world_b_def world_a_def login_doc_def alice_def bob_def)
  moreover from m have "3000 \<le> tl"
    by (simp add: world_b_def world_a_def login_doc_def alice_def bob_def)
  ultimately have "tl = 3000" by simp
  with d show ?thesis by (simp add: world_b_def world_a_def)
qed

text \<open>
  C1 as it is stated fails: in \<open>world_b\<close> the latest login of Alice is at 3000, the
  logout is stamped 5000, and the duration stored is 2007, not the 2000 between them.
\<close>

theorem createUserLog_logout_session_counterexample:
  "map_option logoutTime (data (fst (createUserLog (request id_u1 ''logout'') world_b)))
     = Some (Some 5000) \<and>
   map_option sessionDuration (data (fst (createUserLog (request id_u1 ''logout'') world_b)))
     = Some (Some 2007) \<and>
   map userId (logs world_b) = [id_u1, id_u1, id_u2] \<and>
   map action (logs world_b) = [''login'', ''login'', ''login''] \<and>
   map loginTime (logs world_b) = [Some 1000, Some 3000, Some 4000] \<and>
   (2007 :: int) \<noteq> 5000 - 3000"
  by code_simp

text \<open>
  C5, as amended. In every record that \<^verbatim>\<open>createUserLog\<close> answers, \<^verbatim>\<open>loginTime\<close> is set
  exactly when the action is login and \<^verbatim>\<open>logoutTime\<close> exactly when it is logout; a
  session duration appears only on a logout record; and it is not negative provided that
  no login of that user in the store has a login time later than the clock as
  \<^verbatim>\<open>Date.now()\<close> reads it.
\<close>

theorem createUserLog_record_times:
  assumes "data (fst (createUserLog req st)) = Some d"
  shows "(loginTime d \<noteq> None \<longleftrightarrow> action d = ''login'') \<and>
         (logoutTime d \<noteq> None \<longleftrightarrow> action d = ''logout'') \<and>
         (sessionDuration d \<noteq> None \<longrightarrow> action d = ''logout'') \<and>
         ((\<forall>l \<in> set (logs st). userId l = userId d \<and> action l = ''login'' \<longrightarrow>
             (\<forall>t. loginTime l = Some t \<longrightarrow> t \<le> clock st (Suc (reads st)))) \<longrightarrow>
          (\<forall>n. sessionDuration d = Some n \<longrightarrow> 0 \<le> n))"
proof -
  from createUserLog_data[OF assms] obtain u i t where
    u: "find (\<lambda>u. u_id u = str (b_userId req)) (users st) = Some u"
    and d: "d = document i (fst (set_times u (logData_of u req)
                       (log_effect (E_User_findById (str (b_userId req))) st))) t"
    by blast
  let ?st1 = "log_effect (E_User_findById (str (b_userId req))) st"
  let ?ld = "logData_of u req"
  have z: "ld_loginTime ?ld = None" "ld_logoutTime ?ld = None" "ld_sessionDuration ?ld = None"
    "ld_userId ?ld = u_id u"
    by (simp_all add: logData_of_def)
  note F = set_times_fields[OF z(1-3), of u ?st1]
  have a: "(loginTime d \<noteq> None \<longleftrightarrow> action d = ''login'') \<and>
         (logoutTime d \<noteq> None \<longleftrightarrow> action d = ''logout'') \<and>
         (sessionDuration d \<noteq> None \<longrightarrow> action d = ''logout'')"
    using F unfolding d by (simp add: document_def)
  have b: "0 \<le> n" if bound: "\<forall>l \<in> set (logs st). userId l = userId d \<and> action l = ''login'' \<longrightarrow>
             (\<forall>t. loginTime l = Some t \<longrightarrow> t \<le> clock st (Suc (reads st)))"
    and n: "sessionDuration d = Some n" for n
  proof -
    from n have "ld_sessionDuration (fst (set_times u ?ld ?st1)) = Some n"
      unfolding d by (simp add: document_def)
    from set_times_duration[OF this z(3)] obtain l lt where
      l: "l \<in> set (logs st)" "userId l = u_id u" "action l = ''login''" "loginTime l = Some lt"
        "n = clock st (Suc (reads st)) - lt"
      by (auto simp: log_effect_def)
    have "userId d = u_id u" using F z(4) unfolding d by (simp add: document_def)
    with bound l have "lt \<le> clock st (Suc (reads st))" by auto
    with l(5) show ?thesis by simp
  qed
  from a b show ?thesis by blast
qed

theorem createUserLog_record_times_witness:
  "\<exists>d. data (fst (createUserLog (request id_u1 ''logout'') world_b)) = Some d \<and>
       action d = ''logout'' \<and> loginTime d = None \<and> logoutTime d = Some 5000 \<and>
       sessionDuration d = Some 2007 \<and> (0::int) \<le> 2007"
proof -
  let ?d = "\<lparr>log_id = id_f0, userId = id_u1, username = ''alice@example.com'',
             role = ''admin'', action = ''logout'', loginTime = None,
             logoutTime = Some 5000, ipAddress = ''10.0.0.7'', tokenName = ''N/A'',
             userAgent = ''Unknown'', sessionDuration = Some 2007, createdAt = 5014,
             updatedAt = 5014\<rparr> :: oid userlog"
  have d: "data (fst (createUserLog (request id_u1 ''logout'') world_b)) = Some ?d"
    by code_simp
  have b: "\<forall>l \<in> set (logs world_b). userId l = userId ?d \<and> action l = ''login'' \<longrightarrow>
             (\<forall>t. loginTime l = Some t \<longrightarrow> t \<le> clock world_b (Suc (reads world_b)))"
    by (simp add: world_b_def world_a_def login_doc_def alice_def bob_def)
  from createUserLog_record_times[OF d] b have "\<forall>n. sessionDuration ?d = Some n \<longrightarrow> 0 \<le> n"
    by blast
  then have "(0::int) \<le> 2007" by simp
  with d show ?thesis by simp
qed

text \<open>
  C5 as it is stated fails: nothing keeps the duration from being negative. In
  \<open>world_c\<close> Alice logs in at 9000, the clock is set back, and her logout is given the
  duration \<open>5003 - 9000\<close>.
\<close>

theorem createUserLog_record_times_counterexample:
  "map_option sessionDuration
     (data (fst (createUserLog (request id_u1 ''logout'')
                   (snd (createUserLog (request id_u1 ''login'') world_c)))))
     = Some (Some (- 3997)) \<and>
   map_option action
     (data (fst (createUserLog (request id_u1 ''logout'')
                   (snd (createUserLog (request id_u1 ''login'') world_c)))))
     = Some ''logout'' \<and>
   (- 3997 :: int) < 0"
  by code_simp

text \<open>
  C6. A request in which \<^verbatim>\<open>userId\<close>, \<^verbatim>\<open>action\<close> or \<^verbatim>\<open>ipAddress\<close> is missing (or
  empty) is answered 400 and the world is untouched: no lookup, no call to the store.
  When the three are present and the directory has no such user, the answer is 404 and
  the only call made is the lookup of the user. When the user exists and the action is
  outside the \<^verbatim>\<open>enum\<close> of the schema, \<^verbatim>\<open>save\<close> throws a validation error that names
  \<^verbatim>\<open>action\<close>, the answer is 500, and again the only call made is the lookup of the
  user: nothing is written.
\<close>

theorem createUserLog_rejections:
  "(falsy (b_userId req) \<or> falsy (b_action req) \<or> falsy (b_ipAddress req) \<longrightarrow>
      status (fst (createUserLog req st)) = 400 \<and> snd (createUserLog req st) = st) \<and>
   (\<not> falsy (b_userId req) \<and> \<not> falsy (b_action req) \<and> \<not> falsy (b_ipAddress req) \<and>
    find (\<lambda>u. u_id u = str (b_userId req)) (users st) = None \<longrightarrow>
      status (fst (createUserLog req st)) = 404 \<and>
      logs (snd (createUserLog req st)) = logs st \<and>
      trace (snd (createUserLog req st)) = trace st @ [E_User_findById (str (b_userId req))]) \<and>
   (\<not> falsy (b_userId req) \<and> \<not> falsy (b_action req) \<and> \<not> falsy (b_ipAddress req) \<and>
    find (\<lambda>u. u_id u = str (b_userId req)) (users st) \<noteq> None \<and>
    str (b_action req) \<notin> set action_enum \<longrightarrow>
      status (fst (createUserLog req st)) = 500 \<and>
      (\<exists>ps. error (fst (createUserLog req st)) = Some (ValidationError ps) \<and>
            ''action'' \<in> set ps) \<and>
      logs (snd (createUserLog req st)) = logs st \<and>
      trace (snd (createUserLog req st)) = trace st @ [E_User_findById (str (b_userId req))])"
proof (intro conjI impI)
  assume "falsy (b_userId req) \<or> falsy (b_action req) \<or> falsy (b_ipAddress req)"
  from createUserLog_missing[OF this]
  show "status (fst (createUserLog req st)) = 400" "snd (createUserLog req st) = st"
    by (simp_all add: fail_with_def)
next
  assume a: "\<not> falsy (b_userId req) \<and> \<not> falsy (b_action req) \<and> \<not> falsy (b_ipAddress req) \<and>
    find (\<lambda>u. u_id u = str (b_userId req)) (users st) = None"
  then have "createUserLog req st =
           (fail_with 404 ''User not found'',
            log_effect (E_User_findById (str (b_userId req))) st)"
    by (intro createUserLog_no_user) simp_all
  then show "status (fst (createUserLog req st)) = 404"
    "logs (snd (createUserLog req st)) = logs st"
    "trace (snd (createUserLog req st)) = trace st @ [E_User_findById (str (b_userId req))]"
    by (simp_all add: fail_with_def log_effect_def)
next
  assume a: "\<not> falsy (b_userId req) \<and> \<not> falsy (b_action req) \<and> \<not> falsy (b_ipAddress req) \<and>
    find (\<lambda>u. u_id u = str (b_userId req)) (users st) \<noteq> None \<and>
    str (b_action req) \<notin> set action_enum"
  then obtain u where u: "find (\<lambda>u. u_id u = str (b_userId req)) (users st) = Some u" by auto
  let ?st1 = "log_effect (E_User_findById (str (b_userId req))) st"
  let ?ld = "logData_of u req"
  have act: "ld_action ?ld \<notin> set action_enum" using a by (simp add: logData_of_def)
  then have o: "ld_action ?ld \<noteq> ''login''" "ld_action ?ld \<noteq> ''logout''"
    by (auto simp: action_enum_def)
  have inv: "''action'' \<in> set (validate ?ld)" using act by (simp add: validate_def)
  then have ne: "validate ?ld \<noteq> []" by auto
  have c: "createUserLog req st =
             (internal_error (ValidationError (validate ?ld)), ?st1\<lparr>next_oid := Suc (next_oid ?st1)\<rparr>)"
    using a u
    by (simp add: createUserLog_user[of req st u] set_times_other[OF o]
        save_and_respond_invalid[OF ne])
  show "status (fst (createUserLog req st)) = 500"
    "\<exists>ps. error (fst (createUserLog req st)) = Some (ValidationError ps) \<and> ''action'' \<in> set ps"
    "logs (snd (createUserLog req st)) = logs st"
    "trace (snd (createUserLog req st)) = trace st @ [E_User_findById (str (b_userId req))]"
    using inv unfolding c by (simp_all add: internal_error_def log_effect_def)
qed

theorem createUserLog_rejections_witness:
  "status (fst (createUserLog ((request id_u1 ''login'')\<lparr>b_ipAddress := None\<rparr>) world_b)) = 400 \<and>
   trace (snd (createUserLog ((request id_u1 ''login'')\<lparr>b_ipAddress := None\<rparr>) world_b)) = [] \<and>
   status (fst (createUserLog (request id_u9 ''login'') world_b)) = 404 \<and>
   logs (snd (createUserLog (request id_u9 ''login'') world_b)) = logs world_b \<and>
   status (fst (createUserLog (request id_u1 ''signin'') world_b)) = 500 \<and>
   logs (snd (createUserLog (request id_u1 ''signin'') world_b)) = logs world_b \<and>
   trace (snd (createUserLog (request id_u1 ''signin'') world_b)) = [E_User_findById id_u1]"
proof -
  have 1: "falsy (b_userId ((request id_u1 ''login'')\<lparr>b_ipAddress := None\<rparr>)) \<or>
           falsy (b_action ((request id_u1 ''login'')\<lparr>b_ipAddress := None\<rparr>)) \<or>
           falsy (b_ipAddress ((request id_u1 ''login'')\<lparr>b_ipAddress := None\<rparr>))"
    by (simp add: request_def)
  have 2: "\<not> falsy (b_userId (request id_u9 ''login'')) \<and>
           \<not> falsy (b_action (request id_u9 ''login'')) \<and>
           \<not> falsy (b_ipAddress (request id_u9 ''login'')) \<and>
           find (\<lambda>u. u_id u = str (b_userId (request id_u9 ''login''))) (users world_b) = None"
    by (simp add: request_def world_b_def world_a_def alice_def bob_def)
  have 3: "\<not> falsy (b_userId (request id_u1 ''signin'')) \<and>
           \<not> falsy (b_action (request id_u1 ''signin'')) \<and>
           \<not> falsy (b_ipAddress (request id_u1 ''signin'')) \<and>
           find (\<lambda>u. u_id u = str (b_userId (request id_u1 ''signin''))) (users world_b) \<noteq> None \<and>
           str (b_action (request id_u1 ''signin'')) \<notin> set action_enum"
    by (simp add: request_def world_b_def world_a_def alice_def bob_def action_enum_def)
  have t: "trace world_b = []" by (simp add: world_b_def world_a_def)
  have i: "str (b_userId (request id_u1 ''signin'')) = id_u1" by (simp add: request_def)
  from createUserLog_rejections[of "(request id_u1 ''login'')\<lparr>b_ipAddress := None\<rparr>" world_b] 1
  have a: "status (fst (createUserLog ((request id_u1 ''login'')\<lparr>b_ipAddress := None\<rparr>) world_b)) = 400"
    "trace (snd (createUserLog ((request id_u1 ''login'')\<lparr>b_ipAddress := None\<rparr>) world_b)) = []"
    using t by simp_all
  from createUserLog_rejections[of "request id_u9 ''login''" world_b] 2
  have b: "status (fst (createUserLog (request id_u9 ''login'') world_b)) = 404"
    "logs (snd (createUserLog (request id_u9 ''login'') world_b)) = logs world_b"
    by simp_all
  from createUserLog_rejections[of "request id_u1 ''signin''" world_b] 3
  have c: "status (fst (createUserLog (request id_u1 ''signin'') world_b)) = 500"
    "logs (snd (createUserLog (request id_u1 ''signin'') world_b)) = logs world_b"
    "trace (snd (createUserLog (request id_u1 ''signin'') world_b)) = [E_User_findById id_u1]"
    using t i by simp_all
  from a b c show ?thesis by simp
qed

section \<open>Claims on \<^verbatim>\<open>getUserLogs\<close>\<close>




text \<open>
  C4, as amended. Take a query that the store accepts, whose page is the integer
  \<open>p \<ge> 1\<close> and whose limit is the integer \<open>L \<ge> 1\<close> (1 and 50 when not given), with
  \<open>p\<close>, \<open>L\<close>, the offset \<open>(p - 1) * L\<close> and the number \<open>n\<close> of matching documents all
  below \<open>2^53\<close>. Then the answer holds the documents from offset \<open>(p - 1) * L\<close> on, at
  most \<open>L\<close> of them, of the matching documents put in the order asked for (a
  rearrangement of them that is sorted by the key, downwards for \<open>desc\<close>); the metadata
  are \<open>p\<close>, \<open>\<lceil>n / L\<rceil>\<close>, \<open>n\<close> and \<open>L\<close>. With 120 matching documents, \<open>L = 50\<close> and
  \<open>p = 3\<close> the page is the last 20 and there are 3 pages.
\<close>

theorem getUserLogs_pagination:
  assumes acc: "accepted e q"
    and page: "q_page q = None \<and> p = 1 \<or> q_page q = Some p"
    and limit: "q_limit q = None \<and> L = 50 \<or> q_limit q = Some L"
    and key: "q_sortBy q = None \<and> k = ''createdAt'' \<or> q_sortBy q = Some k"
    and order: "q_sortOrder q = None \<and> ord = ''desc'' \<or> q_sortOrder q = Some ord"
    and range: "1 \<le> p" "1 \<le> L" "p < 2 ^ 53" "L < 2 ^ 53" "(p - 1) * L < 2 ^ 53"
    and count: "n = int (length (filter (satisfies e q) (logs st)))" "n < 2 ^ 53"
  shows "\<exists>S. mset S = mset (filter (satisfies e q) (logs st)) \<and>
           (if ord = ''desc'' then sorted (rev (map (field_key k) S))
            else sorted (map (field_key k) S)) \<and>
           status (fst (getUserLogs e q st)) = 200 \<and>
           data (fst (getUserLogs e q st)) =
             Some (map (populate_userId (users st))
                     (take (nat L) (drop (nat ((p - 1) * L)) S))) \<and>
           pagination (fst (getUserLogs e q st)) =
             Some \<lparr>currentPage = Fin p,
                   totalPages = Fin \<lceil>real_of_int n / real_of_int L\<rceil>,
                   totalItems = n, itemsPerPage = Fin L\<rparr> \<and>
           (n = 120 \<and> L = 50 \<and> p = 3 \<longrightarrow>
              length (take (nat L) (drop (nat ((p - 1) * L)) S)) = 20 \<and>
              take (nat L) (drop (nat ((p - 1) * L)) S) = drop (length S - 20) S \<and>
              map_option totalPages (pagination (fst (getUserLogs e q st))) = Some (Fin 3))"
proof -
  let ?M = "filter (satisfies e q) (logs st)"
  let ?S = "sort_docs (sortBy_of q) (dir_of q) ?M"
  have pg: "page_of q = Fin p"
    using page range by (auto simp: page_of_def to_Number_safe)
  have lm: "limit_of q = Fin L"
    using limit range by (auto simp: limit_of_def to_Number_safe)
  have lN: "limit_of q = to_Number L"
    using lm range by (simp add: to_Number_safe)
  have sk: "skip_of q = Fin ((p - 1) * L)"
    using js_offset_safe[of p L] range unfolding skip_of_def pg lm
    by (simp add: to_Number_safe)
  have off: "0 \<le> (p - 1) * L" using range by simp
  have nn: "\<not> negative (skip_of q)" using off by (simp add: sk)
  have sb: "sortBy_of q = k" using key by (auto simp: sortBy_of_def)
  have dr: "dir_of q = (if ord = ''desc'' then -1 else 1)"
    using order by (auto simp: dir_of_def sortOrder_of_def)
  have n0: "0 \<le> n" using count(1) by simp
  have tp: "Math_ceil_div (to_Number n) (limit_of q) = Fin \<lceil>real_of_int n / real_of_int L\<rceil>"
    unfolding lN using n0 count(2) range by (intro Math_ceil_div_safe) simp_all
  note R = getUserLogs_accepted[OF acc nn, of st]
  have a: "status (fst (getUserLogs e q st)) = 200"
    "data (fst (getUserLogs e q st)) =
       Some (map (populate_userId (users st)) (take (nat L) (drop (nat ((p - 1) * L)) ?S)))"
    "pagination (fst (getUserLogs e q st)) =
       Some \<lparr>currentPage = Fin p, totalPages = Fin \<lceil>real_of_int n / real_of_int L\<rceil>,
             totalItems = n, itemsPerPage = Fin L\<rparr>"
    unfolding R using tp range(2) by (simp_all add: sk pg lm count(1))
  have srt: "(if ord = ''desc'' then sorted (rev (map (field_key k) ?S))
            else sorted (map (field_key k) ?S))"
    using sorted_sort_docs[of "dir_of q" "sortBy_of q" ?M] unfolding sb dr
    by (simp split: if_splits)
  have b: "length (take (nat L) (drop (nat ((p - 1) * L)) ?S)) = 20 \<and>
           take (nat L) (drop (nat ((p - 1) * L)) ?S) = drop (length ?S - 20) ?S \<and>
           map_option totalPages (pagination (fst (getUserLogs e q st))) = Some (Fin 3)"
    if "n = 120" "L = 50" "p = 3"
  proof -
    from that(1) count(1) have l: "length ?S = 120" by (simp add: length_sort_docs)
    have "\<lceil>real_of_int 120 / real_of_int 50\<rceil> = (3::int)" by (simp add: ceiling_divide_eq_div)
    with l that show ?thesis unfolding a(3) by simp
  qed
  show ?thesis
    using a b srt mset_sort_docs[of "sortBy_of q" "dir_of q" ?M]
    by (intro exI[of _ ?S]) blast
qed

theorem getUserLogs_pagination_witness:
  "status (fst (getUserLogs platform page3_query world_d)) = 200 \<and>
   map_option length (data (fst (getUserLogs platform page3_query world_d))) = Some 20 \<and>
   map_option totalPages (pagination (fst (getUserLogs platform page3_query world_d)))
     = Some (Fin 3) \<and>
   map_option currentPage (pagination (fst (getUserLogs platform page3_query world_d)))
     = Some (Fin 3) \<and>
   map_option totalItems (pagination (fst (getUserLogs platform page3_query world_d)))
     = Some 120"
proof -
  have s: "satisfies platform page3_query = (\<lambda>d. True)"
    by (simp add: fun_eq_iff satisfies_def role_clause_def action_clause_def search_regex_def
        date_clause_def page3_query_def no_query_def)
  have n: "(120::int) = int (length (filter (satisfies platform page3_query) (logs world_d)))"
    unfolding s by (simp add: world_d_def del: upt_rec_numeral)
  have h: "accepted platform page3_query"
    "q_page page3_query = None \<and> (3::int) = 1 \<or> q_page page3_query = Some 3"
    "q_limit page3_query = None \<and> (50::int) = 50 \<or> q_limit page3_query = Some 50"
    "q_sortBy page3_query = None \<and> ''createdAt'' = ''createdAt'' \<or>
     q_sortBy page3_query = Some ''createdAt''"
    "q_sortOrder page3_query = None \<and> ''desc'' = ''desc'' \<or>
     q_sortOrder page3_query = Some ''desc''"
    "(1::int) \<le> 3" "(1::int) \<le> 50" "(3::int) < 2 ^ 53" "(50::int) < 2 ^ 53"
    "((3::int) - 1) * 50 < 2 ^ 53"
    by (simp_all add: accepted_def page3_query_def no_query_def)
  have b: "(120::int) < 2 ^ 53" by simp
  from getUserLogs_pagination[where st = world_d, OF h n b] obtain S where
    S: "status (fst (getUserLogs platform page3_query world_d)) = 200 \<and>
        data (fst (getUserLogs platform page3_query world_d)) =
          Some (map (populate_userId (users world_d))
                  (take (nat 50) (drop (nat ((3 - 1) * 50)) S))) \<and>
        pagination (fst (getUserLogs platform page3_query world_d)) =
          Some \<lparr>currentPage = Fin 3,
                totalPages = Fin \<lceil>real_of_int 120 / real_of_int 50\<rceil>,
                totalItems = 120, itemsPerPage = Fin 50\<rparr> \<and>
        ((120::int) = 120 \<and> (50::int) = 50 \<and> (3::int) = 3 \<longrightarrow>
           length (take (nat 50) (drop (nat ((3 - 1) * 50)) S)) = 20 \<and>
           take (nat 50) (drop (nat ((3 - 1) * 50)) S) = drop (length S - 20) S \<and>
           map_option totalPages (pagination (fst (getUserLogs platform page3_query world_d)))
             = Some (Fin 3))"
    by blast
  then have "length (take (nat 50) (drop (nat ((3 - 1) * 50)) S)) = 20" by blast
  with S show ?thesis by (simp add: ceiling_divide_eq_div)
qed

text \<open>
  C4 as it is stated fails, since the handler checks neither parameter and computes with
  doubles. For the page 9007199254740993 the metadata give the page 9007199254740992;
  for the limit 0 the store sets no limit, so all three records are returned, and the
  number of pages is not finite; for the page 0 the offset is negative and the answer is
  500.
\<close>

theorem getUserLogs_pagination_counterexample:
  "q_page huge_page_query = Some 9007199254740993 \<and>
   map_option currentPage (pagination (fst (getUserLogs platform huge_page_query world_b)))
     = Some (Fin 9007199254740992) \<and>
   q_limit zero_limit_query = Some 0 \<and>
   map_option length (data (fst (getUserLogs platform zero_limit_query world_b))) = Some 3 \<and>
   map_option totalPages (pagination (fst (getUserLogs platform zero_limit_query world_b)))
     = Some PosInf \<and>
   q_page zero_page_query = Some 0 \<and>
   status (fst (getUserLogs platform zero_page_query world_b)) = 500 \<and>
   data (fst (getUserLogs platform zero_page_query world_b)) = None"
proof -
  have h: "accepted platform huge_page_query" "\<not> negative (skip_of huge_page_query)"
    by code_simp+
  have p: "page_of huge_page_query = Fin 9007199254740992"
    by code_simp
  have a: "map_option currentPage (pagination (fst (getUserLogs platform huge_page_query world_b)))
             = Some (Fin 9007199254740992)"
    unfolding getUserLogs_accepted[OF h] by (simp add: p)
  have b: "q_page huge_page_query = Some 9007199254740993"
    "q_limit zero_limit_query = Some 0"
    "q_page zero_page_query = Some 0"
    by (simp_all add: huge_page_query_def zero_limit_query_def zero_page_query_def
        no_query_def)
  have c: "map_option length (data (fst (getUserLogs platform zero_limit_query world_b))) = Some 3"
    "map_option totalPages (pagination (fst (getUserLogs platform zero_limit_query world_b)))
       = Some PosInf"
    "status (fst (getUserLogs platform zero_page_query world_b)) = 500"
    "data (fst (getUserLogs platform zero_page_query world_b)) = None"
    by code_simp+
  from a b c show ?thesis by simp
qed

text \<open>
  C10. In the answer of \<^verbatim>\<open>getUserLogs\<close> each document is a document of the store with
  its \<^verbatim>\<open>username\<close> and \<^verbatim>\<open>role\<close> as stored, and with \<^verbatim>\<open>userId\<close> replaced by what
  the directory holds now for that id: the \<^verbatim>\<open>_id\<close>, \<^verbatim>\<open>fullName\<close> and \<^verbatim>\<open>email\<close> of
  the user, or \<^verbatim>\<open>null\<close> when no such user is left.
\<close>

theorem getUserLogs_populates:
  assumes "accepted e q" "\<not> negative (skip_of q)"
  shows "\<exists>found docs.
           data (fst (getUserLogs e q st)) = Some docs \<and> length docs = length found \<and>
           set found \<subseteq> set (logs st) \<and>
           (\<forall>i < length found.
              username (docs ! i) = username (found ! i) \<and>
              role (docs ! i) = role (found ! i) \<and>
              userId (docs ! i) =
                (case find (\<lambda>u. u_id u = userId (found ! i)) (users st) of
                   None \<Rightarrow> None
                 | Some u \<Rightarrow> Some \<lparr>p_id = u_id u, p_fullName = fullName u, p_email = email u\<rparr>))"
proof -
  let ?M = "filter (satisfies e q) (logs st)"
  let ?S = "sort_docs (sortBy_of q) (dir_of q) ?M"
  let ?found = "limit_docs (limit_of q) (skip_docs (skip_of q) ?S)"
  have "set ?found \<subseteq> set (skip_docs (skip_of q) ?S)"
    by (rule set_limit_docs)
  also have "\<dots> \<subseteq> set ?S" by (rule set_skip_docs)
  also have "\<dots> \<subseteq> set (logs st)" by (auto simp: set_sort_docs)
  finally have sub: "set ?found \<subseteq> set (logs st)" .
  have f: "username (populate_userId us d) = username d \<and>
           role (populate_userId us d) = role d \<and>
           userId (populate_userId us d) =
             (case find (\<lambda>u. u_id u = userId d) us of
                None \<Rightarrow> None
              | Some u \<Rightarrow> Some \<lparr>p_id = u_id u, p_fullName = fullName u, p_email = email u\<rparr>)"
    for us d
    by (simp add: populate_userId_def select_user_def split: option.splits)
  show ?thesis
    unfolding getUserLogs_accepted[OF assms]
    using sub f by (intro exI[of _ ?found] exI[of _ "map (populate_userId (users st)) ?found"]) simp
qed

theorem getUserLogs_populates_witness:
  "\<exists>docs. data (fst (getUserLogs platform no_query world_e)) = Some docs \<and>
     map username docs = [''bob@example.com'', ''alice@example.com'', ''alice@example.com''] \<and>
     map role docs = [''user'', ''admin'', ''admin''] \<and>
     map userId docs =
       [None,
        Some \<lparr>p_id = id_u1, p_fullName = ''Alice A'', p_email = ''alice@new.example''\<rparr>,
        Some \<lparr>p_id = id_u1, p_fullName = ''Alice A'', p_email = ''alice@new.example''\<rparr>]"
proof -
  have h: "accepted platform no_query" "\<not> negative (skip_of no_query)"
    by (simp_all add: accepted_def no_query_def skip_of_def page_of_def limit_of_def
        to_Number_safe)
  from getUserLogs_populates[OF h, of world_e] obtain docs where
    d: "data (fst (getUserLogs platform no_query world_e)) = Some docs" by blast
  have "map_option (map username) (data (fst (getUserLogs platform no_query world_e))) =
          Some [''bob@example.com'', ''alice@example.com'', ''alice@example.com'']"
    "map_option (map role) (data (fst (getUserLogs platform no_query world_e))) =
          Some [''user'', ''admin'', ''admin'']"
    "map_option (map userId) (data (fst (getUserLogs platform no_query world_e))) =
       Some [None,
        Some \<lparr>p_id = id_u1, p_fullName = ''Alice A'', p_email = ''alice@new.example''\<rparr>,
        Some \<lparr>p_id = id_u1, p_fullName = ''Alice A'', p_email = ''alice@new.example''\<rparr>]"
    by code_simp+
  with d show ?thesis by simp
qed

section \<open>Claims on the deletions\<close>

text \<open>
  C8. \<^verbatim>\<open>deleteUserLog\<close> looks the record up first. When no record has the id, the
  answer is 404, not a success, and the store is as before: the lookup is the only call.
  When a record has it, the answer is 200 and exactly one record, with that id, is
  removed, by a call that comes after the lookup; where ids are unique no record with
  that id is left.
\<close>

theorem deleteUserLog_checks_then_deletes:
  "(i \<notin> log_id ` set (logs st) \<longrightarrow>
      status (fst (deleteUserLog i st)) = 404 \<and> \<not> success (fst (deleteUserLog i st)) \<and>
      logs (snd (deleteUserLog i st)) = logs st \<and>
      trace (snd (deleteUserLog i st)) = trace st @ [E_UserLog_findById i]) \<and>
   (i \<in> log_id ` set (logs st) \<longrightarrow>
      status (fst (deleteUserLog i st)) = 200 \<and> success (fst (deleteUserLog i st)) \<and>
      (\<exists>l. l \<in> set (logs st) \<and> log_id l = i \<and>
           logs (snd (deleteUserLog i st)) = remove1 l (logs st)) \<and>
      length (logs (snd (deleteUserLog i st))) = length (logs st) - 1 \<and>
      (distinct (map log_id (logs st)) \<longrightarrow> i \<notin> log_id ` set (logs (snd (deleteUserLog i st)))) \<and>
      trace (snd (deleteUserLog i st)) =
        trace st @ [E_UserLog_findById i, E_UserLog_findByIdAndDelete i])"
proof (intro conjI impI)
  assume "i \<notin> log_id ` set (logs st)"
  from deleteUserLog_absent[OF find_log_id(1)[OF this]]
  show "status (fst (deleteUserLog i st)) = 404" "\<not> success (fst (deleteUserLog i st))"
    "logs (snd (deleteUserLog i st)) = logs st"
    "trace (snd (deleteUserLog i st)) = trace st @ [E_UserLog_findById i]"
    by (simp_all add: fail_with_def log_effect_def)
next
  assume a: "i \<in> log_id ` set (logs st)"
  from find_log_id(2)[OF a] obtain l where
    l: "find (\<lambda>d. log_id d = i) (logs st) = Some l" "l \<in> set (logs st)" "log_id l = i"
    by blast
  note D = deleteUserLog_present[OF l(1)]
  show "status (fst (deleteUserLog i st)) = 200" "success (fst (deleteUserLog i st))"
    "trace (snd (deleteUserLog i st)) =
       trace st @ [E_UserLog_findById i, E_UserLog_findByIdAndDelete i]"
    unfolding D by simp_all
  show "\<exists>l. l \<in> set (logs st) \<and> log_id l = i \<and>
           logs (snd (deleteUserLog i st)) = remove1 l (logs st)"
    unfolding D using l by auto
  show "length (logs (snd (deleteUserLog i st))) = length (logs st) - 1"
    unfolding D using l(2) by (simp add: length_remove1)
  show "i \<notin> log_id ` set (logs (snd (deleteUserLog i st)))"
    if dist: "distinct (map log_id (logs st))"
  proof -
    from dist have d: "distinct (logs st)" by (simp add: distinct_map)
    have "d' \<noteq> l \<Longrightarrow> d' \<in> set (logs st) \<Longrightarrow> log_id d' \<noteq> i" for d'
      using dist l(2,3) by (metis distinct_map inj_on_def)
    then show ?thesis unfolding D using d by auto
  qed
qed

theorem deleteUserLog_checks_then_deletes_witness:
  "status (fst (deleteUserLog id_zz world_b)) = 404 \<and>
   logs (snd (deleteUserLog id_zz world_b)) = logs world_b \<and>
   status (fst (deleteUserLog id_a2 world_b)) = 200 \<and>
   length (logs (snd (deleteUserLog id_a2 world_b))) = 2 \<and>
   id_a2 \<notin> log_id ` set (logs (snd (deleteUserLog id_a2 world_b))) \<and>
   trace (snd (deleteUserLog id_a2 world_b)) =
     [E_UserLog_findById id_a2, E_UserLog_findByIdAndDelete id_a2]"
proof -
  have 1: "id_zz \<notin> log_id ` set (logs world_b)" "id_a2 \<in> log_id ` set (logs world_b)"
    "distinct (map log_id (logs world_b))" "length (logs world_b) = 3" "trace world_b = []"
    by (simp_all add: world_b_def world_a_def login_doc_def)
  from deleteUserLog_checks_then_deletes[of "id_zz" world_b] 1
  have a: "status (fst (deleteUserLog id_zz world_b)) = 404"
    "logs (snd (deleteUserLog id_zz world_b)) = logs world_b" by simp_all
  from deleteUserLog_checks_then_deletes[of "id_a2" world_b] 1
  have b: "status (fst (deleteUserLog id_a2 world_b)) = 200"
    "length (logs (snd (deleteUserLog id_a2 world_b))) = 2"
    "id_a2 \<notin> log_id ` set (logs (snd (deleteUserLog id_a2 world_b)))"
    "trace (snd (deleteUserLog id_a2 world_b)) =
       [E_UserLog_findById id_a2, E_UserLog_findByIdAndDelete id_a2]"
    by simp_all
  from a b show ?thesis by simp
qed

text \<open>
  C7. \<^verbatim>\<open>deleteMultipleLogs\<close> answers 400 exactly when \<^verbatim>\<open>logIds\<close> is not a non-empty
  array, and then touches nothing. For a non-empty array of ids it answers 200, removes
  every record whose id is in the array and no other, and reports as deleted the number
  of records removed, which counts the ids that were present and not those asked for.
\<close>

theorem deleteMultipleLogs_count:
  "(status (fst (deleteMultipleLogs v st)) = 400 \<longleftrightarrow> \<not> (\<exists>xs. xs \<noteq> [] \<and> v = JArr xs)) \<and>
   (status (fst (deleteMultipleLogs v st)) = 400 \<longrightarrow> snd (deleteMultipleLogs v st) = st) \<and>
   (\<forall>ids. ids \<noteq> [] \<and> v = JArr (map JStr ids) \<longrightarrow>
      status (fst (deleteMultipleLogs v st)) = 200 \<and> success (fst (deleteMultipleLogs v st)) \<and>
      logs (snd (deleteMultipleLogs v st)) = filter (\<lambda>d. log_id d \<notin> set ids) (logs st) \<and>
      message (fst (deleteMultipleLogs v st)) =
        Some (decimal (length (logs st) - length (logs (snd (deleteMultipleLogs v st)))) @
              '' log entries deleted successfully'') \<and>
      length (logs st) - length (logs (snd (deleteMultipleLogs v st))) =
        length (filter (\<lambda>d. log_id d \<in> set ids) (logs st)))"
proof (intro conjI allI impI)
  show "status (fst (deleteMultipleLogs v st)) = 400 \<longleftrightarrow> \<not> (\<exists>xs. xs \<noteq> [] \<and> v = JArr xs)"
    by (rule deleteMultipleLogs_status)
next
  assume "status (fst (deleteMultipleLogs v st)) = 400"
  then have "\<not> (\<exists>xs. xs \<noteq> [] \<and> v = JArr xs)" unfolding deleteMultipleLogs_status .
  from deleteMultipleLogs_invalid[OF this] show "snd (deleteMultipleLogs v st) = st" by simp
next
  fix ids assume a: "ids \<noteq> [] \<and> v = JArr (map JStr ids)"
  let ?n = "length (filter (\<lambda>d. log_id d \<in> set ids) (logs st))"
  have ne: "map JStr ids \<noteq> []" using a by simp
  have D: "deleteMultipleLogs v st =
          (\<lparr>status = 200, success = True,
            message = Some (decimal ?n @ '' log entries deleted successfully''),
            error = None, data = None, pagination = None\<rparr>,
           st\<lparr>logs := filter (\<lambda>d. log_id d \<notin> set ids) (logs st),
              trace := trace st @ [E_UserLog_deleteMany]\<rparr>)"
    using a unfolding conjunct2[OF a] deleteMultipleLogs_array[OF ne]
    by (simp add: UserLog_deleteMany_in_def cast_all_strings log_effect_def)
  have c: "length (logs st) - length (filter (\<lambda>d. log_id d \<notin> set ids) (logs st)) = ?n"
    using sum_length_filter_compl[of "\<lambda>d. log_id d \<in> set ids" "logs st"] by simp
  show "status (fst (deleteMultipleLogs v st)) = 200" "success (fst (deleteMultipleLogs v st))"
    "logs (snd (deleteMultipleLogs v st)) = filter (\<lambda>d. log_id d \<notin> set ids) (logs st)"
    unfolding D by simp_all
  show "message (fst (deleteMultipleLogs v st)) =
        Some (decimal (length (logs st) - length (logs (snd (deleteMultipleLogs v st)))) @
              '' log entries deleted successfully'')"
    unfolding D using c by simp
  show "length (logs st) - length (logs (snd (deleteMultipleLogs v st))) = ?n"
    unfolding D using c by simp
qed

theorem deleteMultipleLogs_count_witness:
  "status (fst (deleteMultipleLogs (JArr []) world_b)) = 400 \<and>
   status (fst (deleteMultipleLogs (JStr id_a1) world_b)) = 400 \<and>
   status (fst (deleteMultipleLogs (JArr (map JStr [id_a1, id_zz, id_a3, id_qq])) world_b)) = 200 \<and>
   map log_id (logs (snd (deleteMultipleLogs (JArr (map JStr [id_a1, id_zz, id_a3, id_qq])) world_b)))
     = [id_a2] \<and>
   message (fst (deleteMultipleLogs (JArr (map JStr [id_a1, id_zz, id_a3, id_qq])) world_b))
     = Some ''2 log entries deleted successfully''"
proof -
  let ?ids = "[id_a1, id_zz, id_a3, id_qq]"
  have a: "status (fst (deleteMultipleLogs (JArr []) world_b)) = 400"
    "status (fst (deleteMultipleLogs (JStr id_a1) world_b)) = 400"
    using deleteMultipleLogs_count[of "JArr []" world_b]
      deleteMultipleLogs_count[of "JStr id_a1" world_b] by simp_all
  have h: "?ids \<noteq> [] \<and> JArr (map JStr ?ids) = JArr (map JStr ?ids)" by simp
  have f: "filter (\<lambda>d. log_id d \<notin> set ?ids) (logs world_b) = [login_doc id_a2 alice ''192.168.101.5'' 3000]"
    "length (logs world_b) = 3"
    by (simp_all add: world_b_def world_a_def login_doc_def)
  have d: "decimal 2 = ''2''" by code_simp
  from deleteMultipleLogs_count[of "JArr (map JStr ?ids)" world_b] h
  have "status (fst (deleteMultipleLogs (JArr (map JStr ?ids)) world_b)) = 200 \<and>
      logs (snd (deleteMultipleLogs (JArr (map JStr ?ids)) world_b)) =
        filter (\<lambda>d. log_id d \<notin> set ?ids) (logs world_b) \<and>
      message (fst (deleteMultipleLogs (JArr (map JStr ?ids)) world_b)) =
        Some (decimal (length (logs world_b) -
                length (logs (snd (deleteMultipleLogs (JArr (map JStr ?ids)) world_b)))) @
              '' log entries deleted successfully'')"
    by blast
  then have b: "status (fst (deleteMultipleLogs (JArr (map JStr ?ids)) world_b)) = 200"
    "map log_id (logs (snd (deleteMultipleLogs (JArr (map JStr ?ids)) world_b))) = [id_a2]"
    "message (fst (deleteMultipleLogs (JArr (map JStr ?ids)) world_b)) =
       Some ''2 log entries deleted successfully''"
    unfolding f by (simp_all add: d f login_doc_def)
  from a b show ?thesis by simp
qed

section \<open>Claims on \<^verbatim>\<open>getUserLogStats\<close>\<close>

text \<open>
  C3. \<^verbatim>\<open>getUserLogStats\<close> always answers 200. Over the records created no earlier than
  now minus the window (a day for \<open>24h\<close>, thirty days for \<open>30d\<close>, seven days for
  \<open>7d\<close>, for a missing period and for any other value) it reports their number, the
  number of logins, the number of logouts and the number of distinct user ids; when
  there is no such record, four zeros.
\<close>

theorem getUserLogStats_counts:
  "let window = (if per = Some ''24h'' then 86400000
                 else if per = Some ''30d'' then 2592000000
                 else 604800000);
       M = filter (\<lambda>d. clock st (reads st) - window \<le> createdAt d) (logs st);
       r = fst (getUserLogStats per st)
   in status r = 200 \<and> success r \<and>
      data r = Some \<lparr>totalLogs = length M,
                     loginCount = length (filter (\<lambda>d. action d = ''login'') M),
                     logoutCount = length (filter (\<lambda>d. action d = ''logout'') M),
                     uniqueUsers = card (userId ` set M)\<rparr> \<and>
      (M = [] \<longrightarrow>
         data r = Some \<lparr>totalLogs = 0, loginCount = 0, logoutCount = 0, uniqueUsers = 0\<rparr>) \<and>
      logs (snd (getUserLogStats per st)) = logs st"
proof -
  have w: "period_ms (case per of None \<Rightarrow> ''7d'' | Some p \<Rightarrow> p) =
             (if per = Some ''24h'' then 86400000
              else if per = Some ''30d'' then 2592000000
              else 604800000)"
    by (cases per) (auto simp: period_ms_def)
  show ?thesis
    unfolding Let_def getUserLogStats_eq w by (simp del: filter_empty_conv)
qed

theorem getUserLogStats_counts_witness:
  "data (fst (getUserLogStats (Some ''24h'') world_f)) =
     Some \<lparr>totalLogs = 1, loginCount = 1, logoutCount = 0, uniqueUsers = 1\<rparr> \<and>
   data (fst (getUserLogStats None world_f)) =
     Some \<lparr>totalLogs = 3, loginCount = 2, logoutCount = 1, uniqueUsers = 2\<rparr> \<and>
   data (fst (getUserLogStats (Some ''1y'') world_f)) =
     Some \<lparr>totalLogs = 3, loginCount = 2, logoutCount = 1, uniqueUsers = 2\<rparr> \<and>
   data (fst (getUserLogStats (Some ''30d'') world_f)) =
     Some \<lparr>totalLogs = 4, loginCount = 3, logoutCount = 1, uniqueUsers = 2\<rparr> \<and>
   data (fst (getUserLogStats (Some ''24h'') world_a)) =
     Some \<lparr>totalLogs = 0, loginCount = 0, logoutCount = 0, uniqueUsers = 0\<rparr>"
proof -
  have c: "clock world_f (reads world_f) = 864000000" "clock world_a (reads world_a) = 5000"
    "logs world_a = []"
    "logs world_f = [login_doc id_c1 alice ''10.0.0.7'' 172800000,
                      login_doc id_c2 bob ''10.0.0.8'' 432000000,
                      (login_doc id_c3 bob ''10.0.0.8'' 432060000)
                        \<lparr>action := ''logout'', loginTime := None,
                          logoutTime := Some 432060000,
                          sessionDuration := Some 60000\<rparr>,
                      login_doc id_c4 alice ''10.0.0.7'' 777650000]"
    by (simp_all add: world_f_def world_a_def day_def)
  show ?thesis
    using getUserLogStats_counts[of "Some ''24h''" world_f]
      getUserLogStats_counts[of None world_f]
      getUserLogStats_counts[of "Some ''1y''" world_f]
      getUserLogStats_counts[of "Some ''30d''" world_f]
      getUserLogStats_counts[of "Some ''24h''" world_a]
    unfolding Let_def c by (simp add: login_doc_def alice_def bob_def card_insert_if)
qed

end
